theory Spec2Isabelle
  imports Complex_Main
begin

section \<open>Python floats: binary64 with round-to-nearest-even\<close>

text \<open>
  Every number the controller computes with is a Python \<open>float\<close>, an IEEE 754 binary64
  value. A finite binary64 value is modelled as the real number it denotes, and each
  arithmetic operation as the exact operation followed by rounding to the nearest
  representable value, ties to the even significand (\<open>fl\<close>). Subnormal numbers are covered
  (the exponent is clamped at \<open>emin\<close>). Overflow to infinity and NaN are outside the model;
  the sign of a zero is not represented.
\<close>

definition round_half_even :: "real \<Rightarrow> int" where
  "round_half_even q =
     (let f = \<lfloor>q\<rfloor>; d = q - of_int f
      in if d < 1/2 then f else if 1/2 < d then f + 1 else if even f then f else f + 1)"

definition emin :: int where
  "emin = - 1022"

definition expo :: "real \<Rightarrow> int" where
  "expo x = (if \<bar>x\<bar> < 2 powi emin then emin else \<lfloor>log 2 \<bar>x\<bar>\<rfloor>)"

definition ulp :: "real \<Rightarrow> real" where
  "ulp x = 2 powi (expo x - 52)"

definition fl :: "real \<Rightarrow> real" where
  "fl x = of_int (round_half_even (x / ulp x)) * ulp x"

definition is_float :: "real \<Rightarrow> bool" where
  "is_float x \<longleftrightarrow> fl x = x"

definition fadd :: "real \<Rightarrow> real \<Rightarrow> real" where
  "fadd a b = fl (a + b)"

definition fsub :: "real \<Rightarrow> real \<Rightarrow> real" where
  "fsub a b = fl (a - b)"

definition fmul :: "real \<Rightarrow> real \<Rightarrow> real" where
  "fmul a b = fl (a * b)"

definition fdiv :: "real \<Rightarrow> real \<Rightarrow> real" where
  "fdiv a b = fl (a / b)"

definition fsqrt :: "real \<Rightarrow> real" where
  "fsqrt a = fl (sqrt a)"

text \<open>\<open>math.copysign(x, y)\<close>: the magnitude of \<open>x\<close> with the sign of \<open>y\<close>.\<close>

definition copysign :: "real \<Rightarrow> real \<Rightarrow> real" where
  "copysign x y = (if y < 0 then - \<bar>x\<bar> else \<bar>x\<bar>)"

text \<open>Python's \<open>min(a, b)\<close> and \<open>max(a, b)\<close> keep the first argument unless the second beats it.\<close>

definition py_min :: "real \<Rightarrow> real \<Rightarrow> real" where
  "py_min a b = (if b < a then b else a)"

definition py_max :: "real \<Rightarrow> real \<Rightarrow> real" where
  "py_max a b = (if b > a then b else a)"

text \<open>\<open>int(x)\<close> on a float truncates toward zero.\<close>

definition py_int :: "real \<Rightarrow> int" where
  "py_int x = (if 0 \<le> x then \<lfloor>x\<rfloor> else \<lceil>x\<rceil>)"


section \<open>Data model\<close>

datatype direction = Up | Down

datatype click_key = Left_click | Right_click

datatype mouse_button = Left | Right

datatype exn = ZeroDivisionError | DeviceError | InjectionError

datatype thread_target = Input_listener | Mouse_mover | Scroll_thread direction

text \<open>What the controller does to the outside world, in the order it does it.\<close>

datatype effect =
    Mouse_move int int
  | Mouse_click bool mouse_button
  | Mouse_scroll int
  | Thread_start thread_target
  | Sleep real
  | Log_info string
  | Log_error string exn

record GamepadConfig =
  left_max_speed :: real
  left_acceleration :: real
  left_deadzone :: real
  right_max_speed :: real
  right_acceleration :: real
  right_deadzone :: real
  refresh_rate :: real
  left_click_button :: nat
  right_click_button :: nat
  scroll_up_button :: nat
  scroll_down_button :: nat
  left_x_axis :: nat
  left_y_axis :: nat
  right_x_axis :: nat
  right_y_axis :: nat
  restart_delay :: real

definition default_config :: GamepadConfig where
  "default_config =
     \<lparr>left_max_speed = 20, left_acceleration = fl (4/10), left_deadzone = 0,
      right_max_speed = 5, right_acceleration = fl (1/10), right_deadzone = 0,
      refresh_rate = fl (5/1000),
      left_click_button = 7, right_click_button = 6,
      scroll_up_button = 4, scroll_down_button = 5,
      left_x_axis = 0, left_y_axis = 1, right_x_axis = 2, right_y_axis = 4,
      restart_delay = fl (5/10)\<rparr>"

record GamepadController =
  config :: GamepadConfig
  running :: bool
  left_motion :: "real \<times> real"
  right_motion :: "real \<times> real"
  left_speed :: real
  right_speed :: real
  button_states :: "click_key \<Rightarrow> bool"
  scroll_thread_active :: "direction \<Rightarrow> bool"

text \<open>
  The collaborators as one loop iteration finds them: the device snapshot (\<open>pygame\<close>) and
  the operating system's answer to each injected event or thread start. Each call either
  returns or raises.
\<close>

record world =
  pump :: "exn option"
  get_axis :: "nat \<Rightarrow> exn + real"
  get_button :: "nat \<Rightarrow> exn + bool"
  perform :: "effect \<Rightarrow> exn option"

text \<open>
  A method of the controller mutates \<open>self\<close> and may raise part-way: it returns the
  exception if one was raised, the controller as mutated up to that point, and the outputs
  performed.
\<close>

type_synonym step = "GamepadController \<Rightarrow> exn option \<times> GamepadController \<times> effect list"

definition andthen :: "step \<Rightarrow> step \<Rightarrow> step" where
  "andthen f g c =
     (case f c of
        (Some e, c1, o1) \<Rightarrow> (Some e, c1, o1)
      | (None, c1, o1) \<Rightarrow> (case g c1 of (r, c2, o2) \<Rightarrow> (r, c2, o1 @ o2)))"

definition act :: "world \<Rightarrow> effect \<Rightarrow> step" where
  "act w ev c = (case perform w ev of None \<Rightarrow> (None, c, [ev]) | Some e \<Rightarrow> (Some e, c, []))"


section \<open>The controller\<close>

definition init :: "GamepadConfig \<Rightarrow> GamepadController" where
  "init cfg =
     \<lparr>config = cfg, running = False,
      left_motion = (0, 0), right_motion = (0, 0),
      left_speed = 0, right_speed = 0,
      button_states = (\<lambda>_. False),
      scroll_thread_active = (\<lambda>_. False)\<rparr>"

definition apply_deadzone :: "real \<Rightarrow> real \<Rightarrow> exn + real" where
  "apply_deadzone value deadzone =
     (if \<bar>value\<bar> \<le> deadzone then Inr 0
      else let num = fsub \<bar>value\<bar> deadzone; den = fsub 1 deadzone
           in if den = 0 then Inl ZeroDivisionError
              else Inr (copysign (fdiv num den) value))"

definition calculate_motion ::
    "real \<Rightarrow> real \<Rightarrow> real \<Rightarrow> real \<Rightarrow> real \<Rightarrow> (real \<times> real) \<times> real" where
  "calculate_motion x y max_speed acceleration current_speed =
     (let magnitude = fsqrt (fadd (fmul x x) (fmul y y))
      in if magnitude > 0 then
           let norm_x = fdiv x magnitude; norm_y = fdiv y magnitude;
               target_speed = py_min (fmul magnitude max_speed) max_speed;
               new_speed =
                 (if target_speed > current_speed
                  then py_min target_speed (fadd current_speed acceleration)
                  else py_max target_speed (fsub current_speed (fmul acceleration 2)))
           in ((fmul norm_x new_speed, fmul norm_y new_speed), new_speed)
         else ((0, 0), 0))"


fun scroll_thread_loop :: "direction \<Rightarrow> real \<Rightarrow> (bool \<times> world) list \<Rightarrow> effect list" where
  "scroll_thread_loop d delay [] = []"
| "scroll_thread_loop d delay ((active, w) # rest) =
     (if active then
        (let ev = Mouse_scroll (if d = Up then 120 else - 120)
         in case perform w ev of
              Some e \<Rightarrow> []
            | None \<Rightarrow>
                ev # Sleep delay
                   # scroll_thread_loop d (py_max (fl (2/100)) (fmul delay (fl (9/10)))) rest)
      else [])"

definition scroll_thread :: "direction \<Rightarrow> (bool \<times> world) list \<Rightarrow> effect list" where
  "scroll_thread d obs = scroll_thread_loop d (fl (12/100)) obs"

text \<open>The delay the loop sleeps in its \<open>k\<close>-th iteration (counted from 0).\<close>

primrec scroll_delay :: "nat \<Rightarrow> real" where
  "scroll_delay 0 = fl (12/100)"
| "scroll_delay (Suc k) = py_max (fl (2/100)) (fmul (scroll_delay k) (fl (9/10)))"

definition scroll_step :: "world \<Rightarrow> direction \<Rightarrow> bool \<Rightarrow> step" where
  "scroll_step w d pressed c =
     (if pressed \<and> \<not> scroll_thread_active c d then
        act w (Thread_start (Scroll_thread d)) c
      else if \<not> pressed \<and> scroll_thread_active c d then
        (None, c\<lparr>scroll_thread_active := (scroll_thread_active c)(d := False)\<rparr>, [])
      else (None, c, []))"

definition handle_scroll :: "world \<Rightarrow> step" where
  "handle_scroll w c =
     (case get_button w (scroll_up_button (config c)) of
        Inl e \<Rightarrow> (Some e, c, [])
      | Inr up \<Rightarrow>
          (case get_button w (scroll_down_button (config c)) of
             Inl e \<Rightarrow> (Some e, c, [])
           | Inr down \<Rightarrow> andthen (scroll_step w Up up) (scroll_step w Down down) c))"

definition read_stick :: "world \<Rightarrow> nat \<Rightarrow> real \<Rightarrow> exn + real" where
  "read_stick w axis deadzone =
     (case get_axis w axis of Inl e \<Rightarrow> Inl e | Inr v \<Rightarrow> apply_deadzone v deadzone)"

definition read_left :: "world \<Rightarrow> step" where
  "read_left w c =
     (case read_stick w (left_x_axis (config c)) (left_deadzone (config c)) of
        Inl e \<Rightarrow> (Some e, c, [])
      | Inr lx \<Rightarrow>
          (case read_stick w (left_y_axis (config c)) (left_deadzone (config c)) of
             Inl e \<Rightarrow> (Some e, c, [])
           | Inr ly \<Rightarrow>
               (case calculate_motion lx ly (left_max_speed (config c))
                       (left_acceleration (config c)) (left_speed c) of
                  (m, s) \<Rightarrow> (None, c\<lparr>left_motion := m, left_speed := s\<rparr>, []))))"

definition read_right :: "world \<Rightarrow> step" where
  "read_right w c =
     (case read_stick w (right_x_axis (config c)) (right_deadzone (config c)) of
        Inl e \<Rightarrow> (Some e, c, [])
      | Inr rx \<Rightarrow>
          (case read_stick w (right_y_axis (config c)) (right_deadzone (config c)) of
             Inl e \<Rightarrow> (Some e, c, [])
           | Inr ry \<Rightarrow>
               (case calculate_motion rx ry (right_max_speed (config c))
                       (right_acceleration (config c)) (right_speed c) of
                  (m, s) \<Rightarrow> (None, c\<lparr>right_motion := m, right_speed := s\<rparr>, []))))"

definition read_analog_inputs :: "world \<Rightarrow> step" where
  "read_analog_inputs w = andthen (read_left w) (read_right w)"

text \<open>One round of the \<open>for\<close> loop of \<open>_handle_buttons\<close>.\<close>

definition click_step :: "world \<Rightarrow> click_key \<Rightarrow> nat \<Rightarrow> step" where
  "click_step w key button c =
     (case get_button w button of
        Inl e \<Rightarrow> (Some e, c, [])
      | Inr current \<Rightarrow>
          if current \<noteq> button_states c key then
            andthen (act w (Mouse_click current (if key = Left_click then Left else Right)))
              (\<lambda>c. (None, c\<lparr>button_states := (button_states c)(key := current)\<rparr>, [])) c
          else (None, c, []))"

definition handle_buttons :: "world \<Rightarrow> step" where
  "handle_buttons w c =
     andthen (click_step w Left_click (left_click_button (config c)))
             (click_step w Right_click (right_click_button (config c))) c"

definition stop :: "GamepadController \<Rightarrow> GamepadController \<times> effect list" where
  "stop c =
     (c\<lparr>running := False,
        scroll_thread_active := foldl (\<lambda>a d. a(d := False)) (scroll_thread_active c) [Up, Down]\<rparr>,
      [Log_info ''Gamepad control stopped''])"

definition start :: "GamepadController \<Rightarrow> GamepadController \<times> effect list" where
  "start c =
     (if \<not> running c then
        (c\<lparr>running := True\<rparr>,
         [Thread_start Input_listener, Thread_start Mouse_mover,
          Log_info ''Gamepad control started''])
      else (c, []))"

definition sleep_refresh :: step where
  "sleep_refresh c = (None, c, [Sleep (refresh_rate (config c))])"

definition input_iteration :: "world \<Rightarrow> step" where
  "input_iteration w =
     andthen (\<lambda>c. (pump w, c, []))
       (andthen (read_analog_inputs w)
          (andthen (handle_buttons w)
             (andthen (handle_scroll w) sleep_refresh)))"

definition mover_iteration :: "world \<Rightarrow> step" where
  "mover_iteration w c =
     (let total_x = fadd (fst (left_motion c)) (fst (right_motion c));
          total_y = fadd (snd (left_motion c)) (snd (right_motion c))
      in andthen
           (\<lambda>c. if total_x \<noteq> 0 \<or> total_y \<noteq> 0
                then act w (Mouse_move (py_int total_x) (py_int total_y)) c
                else (None, c, []))
           sleep_refresh c)"

text \<open>
  The two loops. Each element of the list is the world one iteration meets; when the list
  is used up the run is cut there. An exception is logged, \<open>stop\<close> is called and the loop
  is left.
\<close>

definition on_error ::
    "string \<Rightarrow> exn \<Rightarrow> GamepadController \<Rightarrow> GamepadController \<times> effect list" where
  "on_error msg e c = (case stop c of (c', out) \<Rightarrow> (c', Log_error msg e # out))"

fun run_loop ::
    "string \<Rightarrow> (world \<Rightarrow> step) \<Rightarrow> world list \<Rightarrow> GamepadController
      \<Rightarrow> GamepadController \<times> effect list" where
  "run_loop msg body [] c = (c, [])"
| "run_loop msg body (w # ws) c =
     (if running c then
        (case body w c of
           (None, c1, o1) \<Rightarrow> (case run_loop msg body ws c1 of (c2, o2) \<Rightarrow> (c2, o1 @ o2))
         | (Some e, c1, o1) \<Rightarrow> (case on_error msg e c1 of (c2, o2) \<Rightarrow> (c2, o1 @ o2)))
      else (c, []))"

definition input_listener ::
    "world list \<Rightarrow> GamepadController \<Rightarrow> GamepadController \<times> effect list" where
  "input_listener = run_loop ''Error in input listener'' input_iteration"

definition mouse_mover ::
    "world list \<Rightarrow> GamepadController \<Rightarrow> GamepadController \<times> effect list" where
  "mouse_mover = run_loop ''Error in mouse mover'' mover_iteration"


text \<open>The invariant of the motion state: each stick's speed lies between 0 and its maximum.\<close>

definition speeds_bounded :: "GamepadController \<Rightarrow> bool" where
  "speeds_bounded c \<longleftrightarrow>
     0 \<le> left_speed c \<and> left_speed c \<le> left_max_speed (config c) \<and>
     0 \<le> right_speed c \<and> right_speed c \<le> right_max_speed (config c)"

text \<open>
  A test input: the left stick held fully to the right, every other axis centred, no
  button pressed, no collaborator failing.
\<close>

definition full_tilt :: world where
  "full_tilt =
     \<lparr>pump = None,
      get_axis = (\<lambda>i. Inr (if i = 0 then 1 else 0)),
      get_button = (\<lambda>_. Inr False),
      perform = (\<lambda>_. None)\<rparr>"


text \<open>
  The left stick's speed after \<open>n\<close> iterations of the sampling loop, started on the default
  configuration with the stick held at full tilt.
\<close>

definition left_speed_after :: "nat \<Rightarrow> real" where
  "left_speed_after n =
     left_speed (fst (input_listener (replicate n full_tilt) (fst (start (init default_config)))))"






text \<open>
  Test inputs: a device that has gone away (every read raises), and an operating system
  that refuses every injected event.
\<close>

definition unplugged :: world where
  "unplugged =
     \<lparr>pump = None,
      get_axis = (\<lambda>_. Inl DeviceError),
      get_button = (\<lambda>_. Inl DeviceError),
      perform = (\<lambda>_. None)\<rparr>"

definition refusing :: world where
  "refusing =
     \<lparr>pump = None,
      get_axis = (\<lambda>_. Inr 0),
      get_button = (\<lambda>_. Inr False),
      perform = (\<lambda>_. Some InjectionError)\<rparr>"




section \<open>Properties of rounding\<close>

lemma rhe_of_int: "round_half_even (of_int n) = n"
  by (simp add: round_half_even_def)

lemma rhe_bounds: "\<lfloor>q\<rfloor> \<le> round_half_even q \<and> round_half_even q \<le> \<lceil>q\<rceil>"
  unfolding round_half_even_def Let_def
  by (auto simp: ceiling_def) linarith+

lemma rhe_mono: "q \<le> q' \<Longrightarrow> round_half_even q \<le> round_half_even q'"
proof -
  assume le: "q \<le> q'"
  have fl: "\<lfloor>q\<rfloor> \<le> \<lfloor>q'\<rfloor>" using le by (rule floor_mono)
  show ?thesis
  proof (cases "\<lfloor>q\<rfloor> = \<lfloor>q'\<rfloor>")
    case True
    then show ?thesis using le unfolding round_half_even_def Let_def by auto
  next
    case False
    then have "\<lfloor>q\<rfloor> + 1 \<le> \<lfloor>q'\<rfloor>" using fl by simp
    moreover have "round_half_even q \<le> \<lfloor>q\<rfloor> + 1"
      unfolding round_half_even_def Let_def by auto
    moreover have "\<lfloor>q'\<rfloor> \<le> round_half_even q'" using rhe_bounds by blast
    ultimately show ?thesis by linarith
  qed
qed

lemma rhe_minus: "round_half_even (- q) = - round_half_even q"
proof (cases "q \<in> \<int>")
  case True
  then obtain n where "q = of_int n" by (auto elim: Ints_cases)
  then show ?thesis using rhe_of_int [of "- n"] rhe_of_int [of n] by simp
next
  case False
  then have f: "\<lfloor>- q\<rfloor> = - \<lfloor>q\<rfloor> - 1"
    using floor_unique [of "- \<lfloor>q\<rfloor> - 1" "- q"] Ints_of_int [of "\<lfloor>q\<rfloor>"]
    by (smt (verit) floor_correct of_int_diff of_int_minus of_int_1)
  show ?thesis
    unfolding round_half_even_def Let_def f
    by (auto simp: algebra_simps)
qed

lemma floor_log2_iff:
  assumes "0 < x"
  shows "(\<lfloor>log 2 x\<rfloor> = k) = (2 powi k \<le> x \<and> x < 2 powi (k + 1))"
proof -
  have a: "(2::real) powr real_of_int k = 2 powi k"
    by (simp add: powr_real_of_int')
  have b: "(2::real) powr real_of_int (k + 1) = 2 powi (k + 1)"
    by (rule powr_real_of_int') auto
  show ?thesis
    using floor_log_eq_powr_iff [OF assms, of 2 k] unfolding a b by simp
qed

lemma pos_of_ge_powi: "(2::real) powi e \<le> x \<Longrightarrow> 0 < x"
  by (smt (verit) zero_less_power_int)

lemma expo_ge: "emin \<le> expo x"
proof (cases "\<bar>x\<bar> < 2 powi emin")
  case True then show ?thesis by (simp add: expo_def)
next
  case False
  then have le: "2 powi emin \<le> \<bar>x\<bar>" by simp
  then have pos: "0 < \<bar>x\<bar>" by (rule pos_of_ge_powi)
  have "2 powi \<lfloor>log 2 \<bar>x\<bar>\<rfloor> \<le> \<bar>x\<bar> \<and> \<bar>x\<bar> < 2 powi (\<lfloor>log 2 \<bar>x\<bar>\<rfloor> + 1)"
    using floor_log2_iff [OF pos, of "\<lfloor>log 2 \<bar>x\<bar>\<rfloor>"] by simp
  then have "(2::real) powi emin < 2 powi (\<lfloor>log 2 \<bar>x\<bar>\<rfloor> + 1)" using le by linarith
  then have "emin < \<lfloor>log 2 \<bar>x\<bar>\<rfloor> + 1"
    by (smt (verit) power_int_increasing)
  then show ?thesis using False by (simp add: expo_def)
qed

lemma expo_minus: "expo (- x) = expo x"
  by (simp add: expo_def)

lemma expo_upper: "\<bar>x\<bar> < 2 powi (expo x + 1)"
proof (cases "\<bar>x\<bar> < 2 powi emin")
  case True
  have "(2::real) powi emin \<le> 2 powi (emin + 1)" by (rule power_int_increasing) auto
  then show ?thesis using True by (simp add: expo_def)
next
  case False
  then have pos: "0 < \<bar>x\<bar>" using pos_of_ge_powi [of emin "\<bar>x\<bar>"] by simp
  show ?thesis
    using floor_log2_iff [OF pos, of "\<lfloor>log 2 \<bar>x\<bar>\<rfloor>"] False by (simp add: expo_def)
qed

lemma expo_lower: "2 powi emin \<le> \<bar>x\<bar> \<Longrightarrow> 2 powi (expo x) \<le> \<bar>x\<bar>"
proof -
  assume a: "2 powi emin \<le> \<bar>x\<bar>"
  then have pos: "0 < \<bar>x\<bar>" by (rule pos_of_ge_powi)
  show ?thesis
    using floor_log2_iff [OF pos, of "\<lfloor>log 2 \<bar>x\<bar>\<rfloor>"] a by (simp add: expo_def)
qed

lemma expo_eqI:
  assumes "2 powi e \<le> \<bar>x\<bar>" "\<bar>x\<bar> < 2 powi (e + 1)" "emin \<le> e"
  shows "expo x = e"
proof -
  have "(2::real) powi emin \<le> 2 powi e" using assms(3) by (intro power_int_increasing) auto
  then have n: "\<not> \<bar>x\<bar> < 2 powi emin" using assms(1) by linarith
  have pos: "0 < \<bar>x\<bar>" using assms(1) by (rule pos_of_ge_powi)
  have "\<lfloor>log 2 \<bar>x\<bar>\<rfloor> = e"
    using floor_log2_iff [OF pos, of e] assms by simp
  then show ?thesis using n by (simp add: expo_def)
qed

lemma expo_subnormal: "\<bar>x\<bar> < 2 powi emin \<Longrightarrow> expo x = emin"
  by (simp add: expo_def)

lemma ulp_pos: "0 < ulp x"
  by (simp add: ulp_def)

lemma ulp_minus: "ulp (- x) = ulp x"
  by (simp add: ulp_def expo_minus)

lemma powi_split: "(2::real) powi (e + 1) = 2 ^ 53 * 2 powi (e - 52)"
proof -
  have "e + 1 = 53 + (e - 52)" by simp
  then have "(2::real) powi (e + 1) = 2 powi (53 + (e - 52))" by (rule arg_cong)
  also have "\<dots> = 2 powi 53 * 2 powi (e - 52)" by (rule power_int_add) simp
  finally show ?thesis by simp
qed

lemma powi_split0: "(2::real) powi e = 2 ^ 52 * 2 powi (e - 52)"
proof -
  have "e = 52 + (e - 52)" by simp
  then have "(2::real) powi e = 2 powi (52 + (e - 52))" by (rule arg_cong)
  also have "\<dots> = 2 powi 52 * 2 powi (e - 52)" by (rule power_int_add) simp
  finally show ?thesis by simp
qed

lemma fl_minus: "fl (- x) = - fl x"
  by (simp add: fl_def ulp_minus rhe_minus)

lemma fl_zero: "fl 0 = 0"
  using rhe_of_int [of 0] by (simp add: fl_def)

lemma fl_nonneg: "0 \<le> x \<Longrightarrow> 0 \<le> fl x"
proof -
  assume "0 \<le> x"
  then have "0 \<le> x / ulp x" using ulp_pos [of x] by simp
  then have "round_half_even 0 \<le> round_half_even (x / ulp x)" by (rule rhe_mono)
  then have "0 \<le> round_half_even (x / ulp x)" using rhe_of_int [of 0] by simp
  then show ?thesis using ulp_pos [of x] by (simp add: fl_def)
qed

lemma fl_upper:
  assumes "0 \<le> x"
  shows "fl x \<le> 2 powi (expo x + 1)"
proof -
  have "x < 2 ^ 53 * ulp x"
    using expo_upper [of x] assms powi_split [of "expo x"] by (simp add: ulp_def)
  then have "x / ulp x \<le> of_int (2 ^ 53)"
    using ulp_pos [of x] by (simp add: field_simps)
  then have "round_half_even (x / ulp x) \<le> round_half_even (of_int (2 ^ 53))"
    by (rule rhe_mono)
  then have "round_half_even (x / ulp x) \<le> 2 ^ 53" by (simp only: rhe_of_int)
  then have "real_of_int (round_half_even (x / ulp x)) \<le> 2 ^ 53"
    by (metis of_int_le_iff of_int_numeral of_int_power)
  then have "fl x \<le> 2 ^ 53 * ulp x"
    unfolding fl_def using ulp_pos [of x] by (simp add: mult_right_mono)
  then show ?thesis using powi_split [of "expo x"] by (simp add: ulp_def)
qed

lemma fl_lower:
  assumes "2 powi emin \<le> x"
  shows "2 powi (expo x) \<le> fl x"
proof -
  have pos: "0 < x" using assms by (rule pos_of_ge_powi)
  have "2 ^ 52 * ulp x \<le> x"
    using expo_lower [of x] assms pos powi_split0 [of "expo x"] by (simp add: ulp_def)
  then have "of_int (2 ^ 52) \<le> x / ulp x"
    using ulp_pos [of x] by (simp add: field_simps)
  then have "round_half_even (of_int (2 ^ 52)) \<le> round_half_even (x / ulp x)"
    by (rule rhe_mono)
  then have "2 ^ 52 \<le> round_half_even (x / ulp x)" by (simp only: rhe_of_int)
  then have "2 ^ 52 \<le> real_of_int (round_half_even (x / ulp x))"
    by (metis of_int_le_iff of_int_numeral of_int_power)
  then have "2 ^ 52 * ulp x \<le> fl x"
    unfolding fl_def using ulp_pos [of x] by (simp add: mult_right_mono)
  then show ?thesis using powi_split0 [of "expo x"] by (simp add: ulp_def)
qed

lemma fl_mono_nonneg:
  assumes "0 \<le> x" "x \<le> y"
  shows "fl x \<le> fl y"
proof (cases "expo x = expo y")
  case True
  then have u: "ulp x = ulp y" by (simp add: ulp_def)
  have "x / ulp y \<le> y / ulp y" using assms ulp_pos [of y] by (simp add: divide_right_mono)
  then have "round_half_even (x / ulp y) \<le> round_half_even (y / ulp y)" by (rule rhe_mono)
  then show ?thesis unfolding fl_def u using ulp_pos [of y] by (simp add: mult_right_mono)
next
  case False
  have lt: "expo x < expo y"
  proof (rule ccontr)
    assume "\<not> expo x < expo y"
    then have gt: "expo y < expo x" using False by simp
    then have "emin < expo x" using expo_ge [of y] by simp
    then have "\<not> \<bar>x\<bar> < 2 powi emin" using expo_subnormal [of x] by auto
    then have "2 powi (expo x) \<le> x" using expo_lower [of x] assms by simp
    moreover have "y < 2 powi (expo y + 1)" using expo_upper [of y] assms by simp
    moreover have "(2::real) powi (expo y + 1) \<le> 2 powi (expo x)"
      using gt by (intro power_int_increasing) auto
    ultimately show False using assms by linarith
  qed
  then have "emin < expo y" using expo_ge [of x] by simp
  then have "\<not> \<bar>y\<bar> < 2 powi emin" using expo_subnormal [of y] by auto
  then have "2 powi emin \<le> y" using assms by simp
  then have "2 powi (expo y) \<le> fl y" by (rule fl_lower)
  moreover have "fl x \<le> 2 powi (expo x + 1)" using assms by (intro fl_upper)
  moreover have "(2::real) powi (expo x + 1) \<le> 2 powi (expo y)"
    using lt by (intro power_int_increasing) auto
  ultimately show ?thesis by linarith
qed

lemma fl_mono: "x \<le> y \<Longrightarrow> fl x \<le> fl y"
proof -
  assume le: "x \<le> y"
  consider "0 \<le> x" | "x < 0" "0 \<le> y" | "y < 0" by linarith
  then show ?thesis
  proof cases
    case 1 then show ?thesis using le by (rule fl_mono_nonneg)
  next
    case 2
    then have "0 \<le> fl (- x)" "0 \<le> fl y" by (simp_all add: fl_nonneg)
    then show ?thesis by (simp add: fl_minus)
  next
    case 3
    then have "fl (- y) \<le> fl (- x)" using le by (intro fl_mono_nonneg) auto
    then show ?thesis by (simp add: fl_minus)
  qed
qed

lemma fl_eval:
  assumes "2 ^ 52 \<le> \<bar>x\<bar> * 2 ^ k" "\<bar>x\<bar> * 2 ^ k < 2 ^ 53" "k \<le> 1074"
  shows "fl x = of_int (round_half_even (x * 2 ^ k)) / 2 ^ k"
proof -
  have p0: "(2::real) powi (52 - int k) = 2 ^ 52 / 2 ^ k"
    by (simp add: power_int_diff)
  have p1: "(2::real) powi (52 - int k + 1) = 2 ^ 53 / 2 ^ k"
    by (simp add: power_int_diff power_int_add)
  have "expo x = 52 - int k"
  proof (rule expo_eqI)
    show "2 powi (52 - int k) \<le> \<bar>x\<bar>" unfolding p0 using assms(1) by (simp add: field_simps)
    show "\<bar>x\<bar> < 2 powi (52 - int k + 1)" unfolding p1 using assms(2) by (simp add: field_simps)
    show "emin \<le> 52 - int k" using assms(3) by (simp add: emin_def)
  qed
  then have "ulp x = 1 / 2 ^ k"
    by (simp add: ulp_def power_int_minus divide_inverse)
  then show ?thesis by (simp add: fl_def)
qed

lemma rhe_ulp_bound: "\<bar>round_half_even (x / ulp x)\<bar> \<le> 2 ^ 53"
proof -
  have nonneg: "round_half_even (y / ulp y) \<le> 2 ^ 53 \<and> 0 \<le> round_half_even (y / ulp y)"
    if "0 \<le> y" for y
  proof -
    have "y < 2 ^ 53 * ulp y"
      using expo_upper [of y] that powi_split [of "expo y"] by (simp add: ulp_def)
    then have "y / ulp y \<le> of_int (2 ^ 53)"
      using ulp_pos [of y] by (simp add: field_simps)
    then have "round_half_even (y / ulp y) \<le> round_half_even (of_int (2 ^ 53))"
      by (rule rhe_mono)
    then have a: "round_half_even (y / ulp y) \<le> 2 ^ 53" by (simp only: rhe_of_int)
    have "of_int 0 \<le> y / ulp y" using that ulp_pos [of y] by simp
    then have "round_half_even (of_int 0) \<le> round_half_even (y / ulp y)" by (rule rhe_mono)
    then have "0 \<le> round_half_even (y / ulp y)" by (simp only: rhe_of_int)
    then show ?thesis using a by simp
  qed
  show ?thesis
  proof (cases "0 \<le> x")
    case True then show ?thesis using nonneg [of x] by simp
  next
    case False
    then have "0 \<le> - x" by simp
    from nonneg [OF this] show ?thesis by (simp add: ulp_minus rhe_minus)
  qed
qed

lemma fl_grid_nonneg:
  assumes "0 \<le> n" "n \<le> 2 ^ 53" "emin \<le> k"
  shows "fl (of_int n * 2 powi (k - 52)) = of_int n * 2 powi (k - 52)"
proof -
  define y :: real where "y = of_int n * 2 powi (k - 52)"
  have y0: "0 \<le> y" using assms(1) by (simp add: y_def)
  have "real_of_int n \<le> 2 ^ 53" using assms(2)
    by (metis of_int_le_iff of_int_numeral of_int_power)
  then have "y \<le> 2 ^ 53 * 2 powi (k - 52)" unfolding y_def by (simp add: mult_right_mono)
  then have yle: "y \<le> 2 powi (k + 1)" using powi_split [of k] by simp
  have "\<exists>m. y / ulp y = of_int m"
  proof (cases "expo y \<le> k")
    case True
    have "y / ulp y = of_int n * (2 powi (k - 52) / 2 powi (expo y - 52))"
      by (simp add: y_def ulp_def)
    also have "2 powi (k - 52) / 2 powi (expo y - 52) = (2::real) powi ((k - 52) - (expo y - 52))"
      by (simp add: power_int_diff)
    also have "(k - 52) - (expo y - 52) = int (nat (k - expo y))" using True by simp
    also have "(2::real) powi (int (nat (k - expo y))) = 2 ^ nat (k - expo y)"
      by (rule power_int_of_nat)
    finally have "y / ulp y = of_int (n * 2 ^ nat (k - expo y))" by simp
    then show ?thesis by blast
  next
    case False
    then have gt: "k + 1 \<le> expo y" by simp
    then have "emin < expo y" using assms(3) by simp
    then have "\<not> \<bar>y\<bar> < 2 powi emin" using expo_subnormal [of y] by auto
    then have lo: "2 powi (expo y) \<le> y" using expo_lower [of y] y0 by simp
    have "(2::real) powi (k + 1) \<le> 2 powi (expo y)"
      using gt by (intro power_int_increasing) auto
    then have "2 powi (expo y) = y" using lo yle by linarith
    then have "y = 2 ^ 52 * ulp y" using powi_split0 [of "expo y"] by (simp add: ulp_def)
    then have "y / ulp y = of_int (2 ^ 52)" using ulp_pos [of y]
      by (metis nonzero_eq_divide_eq of_int_numeral of_int_power less_irrefl)
    then show ?thesis by blast
  qed
  then obtain m where m: "y / ulp y = of_int m" by blast
  then have "fl y = of_int m * ulp y" by (simp add: fl_def rhe_of_int)
  also have "\<dots> = y" using m ulp_pos [of y] by (simp add: field_simps)
  finally show ?thesis by (simp add: y_def)
qed

lemma fl_grid:
  assumes "\<bar>n\<bar> \<le> 2 ^ 53" "emin \<le> k"
  shows "fl (of_int n * 2 powi (k - 52)) = of_int n * 2 powi (k - 52)"
proof (cases "0 \<le> n")
  case True
  then show ?thesis using assms by (intro fl_grid_nonneg) auto
next
  case False
  then have "fl (of_int (- n) * 2 powi (k - 52)) = of_int (- n) * 2 powi (k - 52)"
    using assms by (intro fl_grid_nonneg) auto
  then show ?thesis using fl_minus [of "of_int n * 2 powi (k - 52)"] by simp
qed

lemma fl_idem: "fl (fl x) = fl x"
  unfolding fl_def [of x] ulp_def
  by (rule fl_grid) (use rhe_ulp_bound [of x] expo_ge [of x] in \<open>simp_all add: ulp_def\<close>)

lemma is_float_fl: "is_float (fl x)"
  by (simp add: is_float_def fl_idem)

lemma is_float_0: "is_float 0"
  by (simp add: is_float_def fl_zero)

lemma is_float_minus: "is_float x \<Longrightarrow> is_float (- x)"
  by (simp add: is_float_def fl_minus)

lemma is_float_abs: "is_float x \<Longrightarrow> is_float \<bar>x\<bar>"
  by (simp add: abs_real_def is_float_minus)


section \<open>Lifecycle: stop\<close>

lemma stop_flags: "scroll_thread_active (fst (stop c)) = (\<lambda>_. False)"
proof
  fix d show "scroll_thread_active (fst (stop c)) d = False"
    by (cases d) (simp_all add: stop_def)
qed

lemma stop_eq: "fst (stop c) = c\<lparr>running := False, scroll_thread_active := (\<lambda>_. False)\<rparr>"
  using stop_flags [of c] by (simp add: stop_def)

text \<open>
  C9. \<open>stop\<close> sets the running flag to false and the active flag of every scroll direction
  to false, and calling it twice leaves the same controller state as calling it once.
\<close>

theorem stop_idempotent:
  "running (fst (stop c)) = False
   \<and> (\<forall>d. scroll_thread_active (fst (stop c)) d = False)
   \<and> fst (stop (fst (stop c))) = fst (stop c)"
  by (simp add: stop_eq)

text \<open>
  C10. \<open>stop\<close> changes nothing but the running flag and the scroll active flags: the
  motion state, the button edge states and the configuration are as before.
\<close>

theorem stop_frame:
  "fst (stop c) = c\<lparr>running := running (fst (stop c)),
                     scroll_thread_active := scroll_thread_active (fst (stop c))\<rparr>
   \<and> left_motion (fst (stop c)) = left_motion c
   \<and> right_motion (fst (stop c)) = right_motion c
   \<and> left_speed (fst (stop c)) = left_speed c
   \<and> right_speed (fst (stop c)) = right_speed c
   \<and> button_states (fst (stop c)) = button_states c
   \<and> config (fst (stop c)) = config c"
  by (simp add: stop_eq)


section \<open>Deadzone shaping\<close>

lemma fl_half: "fl (1/2) = 1/2"
  by (subst fl_eval [where k = 53]) (simp_all add: round_half_even_def)

lemma fl_one: "fl 1 = 1"
  by (subst fl_eval [where k = 52]) (simp_all add: round_half_even_def)

lemma fl_eps: "fl (1 / 2 ^ 53) = 1 / 2 ^ 53"
  by (subst fl_eval [where k = 105]) (simp_all add: round_half_even_def)

lemma float_below_one:
  assumes "is_float d" "1/2 < d" "d < 1"
  shows "d \<le> 1 - 1 / 2 ^ 53"
proof -
  have e: "expo d = - 1"
    by (rule expo_eqI) (use assms in \<open>simp_all add: emin_def\<close>)
  have u: "ulp d = 1 / 2 ^ 53"
    by (simp add: ulp_def e)
  define n where "n = round_half_even (d / ulp d)"
  have "of_int n * ulp d = d"
    using assms(1) unfolding is_float_def fl_def n_def .
  then have d: "d = of_int n / 2 ^ 53" unfolding u by simp
  then have "real_of_int n < 2 ^ 53" using assms(3) by (simp add: field_simps)
  then have "real_of_int n < real_of_int (2 ^ 53)" by simp
  then have "n < 2 ^ 53" by (simp only: of_int_less_iff)
  then have "n \<le> 2 ^ 53 - 1" by simp
  then have "real_of_int n \<le> real_of_int (2 ^ 53 - 1)" by (simp only: of_int_le_iff)
  then have "real_of_int n \<le> 2 ^ 53 - 1" by simp
  then show ?thesis by (subst d) (simp add: field_simps)
qed

lemma one_minus_float_pos:
  assumes "is_float d" "d < 1"
  shows "0 < fl (1 - d)"
proof (cases "d \<le> 1/2")
  case True
  then have "fl (1/2) \<le> fl (1 - d)" by (intro fl_mono) simp
  then show ?thesis by (simp add: fl_half)
next
  case False
  then have "d \<le> 1 - 1 / 2 ^ 53" using assms by (intro float_below_one) auto
  then have "fl (1 / 2 ^ 53) \<le> fl (1 - d)" by (intro fl_mono) simp
  then show ?thesis by (simp only: fl_eps) simp
qed

lemma fl_03: "fl (3/10) = 5404319552844595 / 18014398509481984"
  by (subst fl_eval [where k = 54]) (simp_all add: round_half_even_def)

lemma fl_1_minus_03: "fl (12610078956637389 / 18014398509481984) = 3152519739159347 / 4503599627370496"
  by (subst fl_eval [where k = 53]) (simp_all add: round_half_even_def)

lemma apply_deadzone_example: "apply_deadzone 1 (fl (3/10)) = Inr 1"
  by (simp add: apply_deadzone_def fl_03 fsub_def fdiv_def fl_1_minus_03 fl_one copysign_def)

text \<open>
  C2. For a raw axis value \<open>v\<close> in \<open>[-1, 1]\<close> and a deadzone \<open>d\<close> in \<open>[0, 1)\<close>,
  \<open>_apply_deadzone\<close> returns (it does not raise) \<open>0\<close> when \<open>\<bar>v\<bar> \<le> d\<close> and
  \<open>sign(v) * (\<bar>v\<bar> - d) / (1 - d)\<close> otherwise, the subtractions and the division being the
  binary64 ones; at the boundary \<open>\<bar>v\<bar> = d\<close> the result is exactly \<open>0\<close>, and for \<open>v = 1\<close>,
  \<open>d = 0.3\<close> it is exactly \<open>1.0\<close>.
\<close>

theorem apply_deadzone_spec:
  assumes "is_float d" "0 \<le> d" "d < 1" "- 1 \<le> v" "v \<le> 1"
  shows "apply_deadzone v d =
           Inr (if \<bar>v\<bar> \<le> d then 0 else sgn v * fdiv (fsub \<bar>v\<bar> d) (fsub 1 d))
         \<and> (\<bar>v\<bar> = d \<longrightarrow> apply_deadzone v d = Inr 0)
         \<and> apply_deadzone 1 (fl (3/10)) = Inr 1"
proof -
  have den: "fsub 1 d \<noteq> 0"
    using one_minus_float_pos [OF assms(1) assms(3)] by (simp add: fsub_def)
  have main: "apply_deadzone v d =
           Inr (if \<bar>v\<bar> \<le> d then 0 else sgn v * fdiv (fsub \<bar>v\<bar> d) (fsub 1 d))"
  proof (cases "\<bar>v\<bar> \<le> d")
    case True
    then show ?thesis by (simp add: apply_deadzone_def)
  next
    case False
    then have "0 \<le> \<bar>v\<bar> - d" by simp
    then have num: "0 \<le> fsub \<bar>v\<bar> d" unfolding fsub_def by (rule fl_nonneg)
    have "0 \<le> fsub 1 d"
      using one_minus_float_pos [OF assms(1) assms(3)] by (simp add: fsub_def)
    then have "0 \<le> fsub \<bar>v\<bar> d / fsub 1 d" using num by simp
    then have q: "0 \<le> fdiv (fsub \<bar>v\<bar> d) (fsub 1 d)" unfolding fdiv_def by (rule fl_nonneg)
    have "v \<noteq> 0" using False assms(2) by auto
    then have "copysign (fdiv (fsub \<bar>v\<bar> d) (fsub 1 d)) v = sgn v * fdiv (fsub \<bar>v\<bar> d) (fsub 1 d)"
      using q by (simp add: copysign_def sgn_real_def)
    then show ?thesis using False den by (simp add: apply_deadzone_def Let_def)
  qed
  moreover have "\<bar>v\<bar> = d \<longrightarrow> apply_deadzone v d = Inr 0"
    by (simp add: apply_deadzone_def)
  ultimately show ?thesis using apply_deadzone_example by simp
qed

text \<open>The theorem at \<open>d = 0.3\<close>, with \<open>v = 1\<close> and with \<open>v = d\<close>.\<close>

theorem apply_deadzone_spec_witness:
  "is_float (fl (3/10)) \<and> 0 \<le> fl (3/10) \<and> fl (3/10) < 1 \<and> - 1 \<le> (1::real) \<and> (1::real) \<le> 1
   \<and> apply_deadzone 1 (fl (3/10)) = Inr (1::real)
   \<and> apply_deadzone (fl (3/10)) (fl (3/10)) = Inr 0"
proof -
  have h: "is_float (fl (3/10))" "0 \<le> fl (3/10)" "fl (3/10) < 1"
    by (rule is_float_fl) (simp_all add: fl_03)
  have a: "- 1 \<le> (1::real)" "(1::real) \<le> 1" by simp_all
  have b: "- 1 \<le> fl (3/10)" "fl (3/10) \<le> 1" using h by linarith+
  have e: "\<bar>fl (3/10)\<bar> = fl (3/10)" using h(2) by (rule abs_of_nonneg)
  have c1: "apply_deadzone 1 (fl (3/10)) = Inr 1"
    using apply_deadzone_spec [OF h a] by blast
  have c2: "apply_deadzone (fl (3/10)) (fl (3/10)) = Inr 0"
    using apply_deadzone_spec [OF h b] e by blast
  show ?thesis using h a c1 c2 by blast
qed


section \<open>The velocity curve: bounds on the speed\<close>

lemma py_min_eq: "py_min a b = min a b"
  by (simp add: py_min_def min_def)

lemma py_max_eq: "py_max a b = max a b"
  by (simp add: py_max_def max_def)

lemma magnitude_nonneg: "0 \<le> fsqrt (fadd (fmul x x) (fmul y y))"
proof -
  have "0 \<le> fadd (fmul x x) (fmul y y)"
    unfolding fadd_def fmul_def by (intro fl_nonneg add_nonneg_nonneg) simp_all
  then have "0 \<le> sqrt (fadd (fmul x x) (fmul y y))" by simp
  then show ?thesis unfolding fsqrt_def by (rule fl_nonneg)
qed

lemma new_speed_bounds:
  assumes M: "0 < M" "is_float M" and a: "0 < a" and s: "0 \<le> s" "s \<le> M" and m: "0 < m"
  defines "t \<equiv> min (fmul m M) M"
  defines "n \<equiv> (if t > s then min t (fadd s a) else max t (fsub s (fmul a 2)))"
  shows "0 \<le> n \<and> n \<le> M"
proof -
  have "0 \<le> fmul m M" unfolding fmul_def using m M(1) by (intro fl_nonneg) simp
  then have t: "0 \<le> t" "t \<le> M" using M(1) by (simp_all add: t_def)
  have up: "0 \<le> fadd s a" unfolding fadd_def using s(1) a by (intro fl_nonneg) simp
  have "0 \<le> fmul a 2" unfolding fmul_def using a by (intro fl_nonneg) simp
  then have "s - fmul a 2 \<le> M" using s(2) by simp
  then have "fl (s - fmul a 2) \<le> fl M" by (rule fl_mono)
  then have down: "fsub s (fmul a 2) \<le> M" using M(2) by (simp add: fsub_def is_float_def)
  show ?thesis using t up down by (auto simp: n_def min_def max_def)
qed

lemma snd_calculate_motion:
  "snd (calculate_motion x y M a s) =
     (if 0 < fsqrt (fadd (fmul x x) (fmul y y)) then
        (if min (fmul (fsqrt (fadd (fmul x x) (fmul y y))) M) M > s
         then min (min (fmul (fsqrt (fadd (fmul x x) (fmul y y))) M) M) (fadd s a)
         else max (min (fmul (fsqrt (fadd (fmul x x) (fmul y y))) M) M) (fsub s (fmul a 2)))
      else 0)"
  by (simp add: calculate_motion_def Let_def py_min_eq py_max_eq)

lemma calculate_motion_speed:
  assumes "0 < M" "is_float M" "0 < a" "0 \<le> s" "s \<le> M"
  shows "0 \<le> snd (calculate_motion x y M a s) \<and> snd (calculate_motion x y M a s) \<le> M"
proof (cases "0 < fsqrt (fadd (fmul x x) (fmul y y))")
  case True
  from new_speed_bounds [OF assms True] True show ?thesis
    by (simp only: snd_calculate_motion if_True)
next
  case False
  then show ?thesis using assms by (simp add: snd_calculate_motion)
qed


subsection \<open>Invariants of the loops\<close>

lemma andthen_preserves:
  assumes "\<And>c. P c \<Longrightarrow> P (fst (snd (f c)))" "\<And>c. P c \<Longrightarrow> P (fst (snd (g c)))" "P c"
  shows "P (fst (snd (andthen f g c)))"
proof -
  obtain r c1 o1 where f: "f c = (r, c1, o1)" by (cases "f c") auto
  then have c1: "P c1" using assms(1) [OF assms(3)] by simp
  show ?thesis
  proof (cases r)
    case None
    obtain r2 c2 o2 where g: "g c1 = (r2, c2, o2)" by (cases "g c1") auto
    then have "P c2" using assms(2) [OF c1] by simp
    then show ?thesis using f g None by (simp add: andthen_def)
  next
    case (Some e)
    then show ?thesis using f c1 by (simp add: andthen_def)
  qed
qed

lemma run_loop_preserves:
  assumes body: "\<And>w c. P c \<Longrightarrow> P (fst (snd (body w c)))"
    and stop: "\<And>c. P c \<Longrightarrow> P (fst (stop c))"
  shows "P c \<Longrightarrow> P (fst (run_loop msg body ws c))"
proof (induction ws arbitrary: c)
  case Nil
  then show ?case by simp
next
  case (Cons w ws)
  obtain r c1 o1 where b: "body w c = (r, c1, o1)" by (cases "body w c") auto
  then have c1: "P c1" using body [OF Cons.prems, of w] by simp
  show ?case
  proof (cases "running c")
    case False
    then show ?thesis using Cons.prems by simp
  next
    case True
    show ?thesis
    proof (cases r)
      case None
      then show ?thesis using True b Cons.IH [OF c1]
        by (simp add: split_beta)
    next
      case (Some e)
      then show ?thesis using True b stop [OF c1]
        by (simp add: on_error_def split_beta)
    qed
  qed
qed

lemma act_state: "fst (snd (act w ev c)) = c"
  by (simp add: act_def split: option.splits)

lemma scroll_step_speeds: "speeds_bounded c \<Longrightarrow> speeds_bounded (fst (snd (scroll_step w d p c)))"
  by (simp add: scroll_step_def act_state speeds_bounded_def)

lemma scroll_step_config: "config (fst (snd (scroll_step w d p c))) = config c"
  by (simp add: scroll_step_def act_state)

lemma click_step_speeds: "speeds_bounded c \<Longrightarrow> speeds_bounded (fst (snd (click_step w k b c)))"
  by (simp add: click_step_def andthen_def act_def speeds_bounded_def
      split: sum.splits option.splits)

lemma click_step_config: "config (fst (snd (click_step w k b c))) = config c"
  by (simp add: click_step_def andthen_def act_def split: sum.splits option.splits)


lemma read_left_inv:
  assumes "0 < left_max_speed (config c)" "is_float (left_max_speed (config c))"
    "0 < left_acceleration (config c)" "speeds_bounded c"
  shows "speeds_bounded (fst (snd (read_left w c))) \<and> config (fst (snd (read_left w c))) = config c"
proof -
  have "0 \<le> left_speed c" "left_speed c \<le> left_max_speed (config c)"
    using assms(4) by (simp_all add: speeds_bounded_def)
  from calculate_motion_speed [OF assms(1-3) this]
  show ?thesis using assms(4)
    by (simp add: read_left_def speeds_bounded_def split_beta split: sum.splits)
qed

lemma read_right_inv:
  assumes "0 < right_max_speed (config c)" "is_float (right_max_speed (config c))"
    "0 < right_acceleration (config c)" "speeds_bounded c"
  shows "speeds_bounded (fst (snd (read_right w c))) \<and> config (fst (snd (read_right w c))) = config c"
proof -
  have "0 \<le> right_speed c" "right_speed c \<le> right_max_speed (config c)"
    using assms(4) by (simp_all add: speeds_bounded_def)
  from calculate_motion_speed [OF assms(1-3) this]
  show ?thesis using assms(4)
    by (simp add: read_right_def speeds_bounded_def split_beta split: sum.splits)
qed

lemma stop_speeds: "speeds_bounded c \<Longrightarrow> speeds_bounded (fst (stop c))"
  by (simp add: stop_eq speeds_bounded_def)

lemma input_iteration_inv:
  assumes "0 < left_max_speed cfg" "is_float (left_max_speed cfg)" "0 < left_acceleration cfg"
    and "0 < right_max_speed cfg" "is_float (right_max_speed cfg)" "0 < right_acceleration cfg"
    and "config c = cfg \<and> speeds_bounded c"
  shows "config (fst (snd (input_iteration w c))) = cfg
         \<and> speeds_bounded (fst (snd (input_iteration w c)))"
proof -
  define P where "P = (\<lambda>c. config c = cfg \<and> speeds_bounded c)"
  have left: "P (fst (snd (read_left w c)))" if "P c" for c
    using that read_left_inv [of c w] assms(1-3) by (simp add: P_def)
  have right: "P (fst (snd (read_right w c)))" if "P c" for c
    using that read_right_inv [of c w] assms(4-6) by (simp add: P_def)
  have analog: "P (fst (snd (read_analog_inputs w c)))" if "P c" for c
    unfolding read_analog_inputs_def using left right that by (rule andthen_preserves)
  have click: "P (fst (snd (click_step w k b c)))" if "P c" for c k b
    using that click_step_speeds [of c w k b] click_step_config [of w k b c] by (simp add: P_def)
  have buttons: "P (fst (snd (handle_buttons w c)))" if "P c" for c
    unfolding handle_buttons_def using click click that by (rule andthen_preserves)
  have sstep: "P (fst (snd (scroll_step w d p c)))" if "P c" for c d p
    using that scroll_step_speeds [of c w d p] scroll_step_config [of w d p c] by (simp add: P_def)
  have scroll: "P (fst (snd (handle_scroll w c)))" if "P c" for c
  proof (cases "get_button w (scroll_up_button (config c))")
    case (Inl e) then show ?thesis using that by (simp add: handle_scroll_def)
  next
    case up: (Inr up)
    show ?thesis
    proof (cases "get_button w (scroll_down_button (config c))")
      case (Inl e) then show ?thesis using that up by (simp add: handle_scroll_def)
    next
      case (Inr down)
      have "P (fst (snd (andthen (scroll_step w Up up) (scroll_step w Down down) c)))"
        using sstep sstep that by (rule andthen_preserves)
      then show ?thesis using up Inr by (simp add: handle_scroll_def)
    qed
  qed
  have sleep: "P (fst (snd (sleep_refresh c)))" if "P c" for c
    using that by (simp add: sleep_refresh_def)
  have "P c" using assms(7) by (simp add: P_def)
  then have "P (fst (snd (input_iteration w c)))"
    unfolding input_iteration_def
    by (intro andthen_preserves [where P = P]) (simp_all add: analog buttons scroll sleep)
  then show ?thesis by (simp add: P_def)
qed

lemma init_speeds: "0 < left_max_speed cfg \<Longrightarrow> 0 < right_max_speed cfg \<Longrightarrow> speeds_bounded (init cfg)"
  by (simp add: speeds_bounded_def init_def)

lemma start_speeds: "speeds_bounded c \<Longrightarrow> speeds_bounded (fst (start c))"
  by (simp add: speeds_bounded_def start_def)

lemma start_config: "config (fst (start c)) = config c"
  by (simp add: start_def)

lemma fl_20: "fl 20 = 20"
  by (subst fl_eval [where k = 48]) (simp_all add: round_half_even_def)

lemma fl_5: "fl 5 = 5"
  by (subst fl_eval [where k = 50]) (simp_all add: round_half_even_def)

lemma fl_04: "fl (2/5) = 3602879701896397 / 9007199254740992"
  by (subst fl_eval [where k = 54]) (simp_all add: round_half_even_def)

lemma fl_01: "fl (1/10) = 3602879701896397 / 36028797018963968"
  by (subst fl_eval [where k = 56]) (simp_all add: round_half_even_def)

text \<open>
  C5. With positive maximum speeds and acceleration steps (the maximum speeds being
  binary64 values), each stick's speed is at least 0 and at most that stick's maximum
  speed in the freshly built controller, after \<open>start\<close>, and after any number of iterations
  of the sampling loop, whatever the device delivers and also when an iteration raises;
  and one application of \<open>_calculate_motion\<close> to a speed within those bounds returns a
  speed within them.
\<close>

theorem speed_invariant:
  assumes "0 < left_max_speed cfg" "is_float (left_max_speed cfg)" "0 < left_acceleration cfg"
    and "0 < right_max_speed cfg" "is_float (right_max_speed cfg)" "0 < right_acceleration cfg"
  shows "speeds_bounded (init cfg)
         \<and> speeds_bounded (fst (input_listener ws (fst (start (init cfg)))))
         \<and> (0 \<le> s \<and> s \<le> left_max_speed cfg \<longrightarrow>
              0 \<le> snd (calculate_motion x y (left_max_speed cfg) (left_acceleration cfg) s)
              \<and> snd (calculate_motion x y (left_max_speed cfg) (left_acceleration cfg) s)
                  \<le> left_max_speed cfg)
         \<and> (0 \<le> s \<and> s \<le> right_max_speed cfg \<longrightarrow>
              0 \<le> snd (calculate_motion x y (right_max_speed cfg) (right_acceleration cfg) s)
              \<and> snd (calculate_motion x y (right_max_speed cfg) (right_acceleration cfg) s)
                  \<le> right_max_speed cfg)"
proof -
  define P where "P = (\<lambda>c. config c = cfg \<and> speeds_bounded c)"
  have i: "speeds_bounded (init cfg)" using assms(1,4) by (rule init_speeds)
  then have "P (fst (start (init cfg)))"
    by (simp add: P_def start_speeds start_config) (simp add: init_def)
  moreover have "P (fst (snd (input_iteration w c)))" if "P c" for w c
    using input_iteration_inv [OF assms, of c w] that by (simp add: P_def)
  moreover have "P (fst (stop c))" if "P c" for c
    using that by (simp add: P_def stop_speeds) (simp add: stop_eq)
  ultimately have "P (fst (run_loop ''Error in input listener'' input_iteration ws
                            (fst (start (init cfg)))))"
    by (intro run_loop_preserves [where P = P])
  then have l: "speeds_bounded (fst (input_listener ws (fst (start (init cfg)))))"
    by (simp add: P_def input_listener_def)
  show ?thesis
    using i l calculate_motion_speed [OF assms(1-3), of s x y]
      calculate_motion_speed [OF assms(4-6), of s x y]
    by blast
qed

text \<open>The theorem at the default configuration, for one tick with the left stick pushed.\<close>

theorem speed_invariant_witness:
  "0 < left_max_speed default_config \<and> is_float (left_max_speed default_config)
   \<and> 0 < left_acceleration default_config
   \<and> 0 < right_max_speed default_config \<and> is_float (right_max_speed default_config)
   \<and> 0 < right_acceleration default_config
   \<and> speeds_bounded (fst (input_listener [full_tilt] (fst (start (init default_config)))))
   \<and> 0 \<le> snd (calculate_motion 1 0 20 (fl (4/10)) 0)
   \<and> snd (calculate_motion 1 0 20 (fl (4/10)) 0) \<le> 20"
proof -
  have h: "0 < left_max_speed default_config" "is_float (left_max_speed default_config)"
    "0 < left_acceleration default_config"
    "0 < right_max_speed default_config" "is_float (right_max_speed default_config)"
    "0 < right_acceleration default_config"
    by (simp_all add: default_config_def is_float_def fl_20 fl_5 fl_04 fl_01)
  have c: "left_max_speed default_config = 20" "left_acceleration default_config = fl (4/10)"
    by (simp_all add: default_config_def)
  have "0 \<le> snd (calculate_motion 1 0 20 (fl (4/10)) 0)
        \<and> snd (calculate_motion 1 0 20 (fl (4/10)) 0) \<le> 20"
    using speed_invariant [OF h, where s = 0 and x = 1 and y = 0] unfolding c by simp
  then show ?thesis using h speed_invariant [OF h, where ws = "[full_tilt]"] by blast
qed


section \<open>The velocity curve: formula and ramp\<close>

lemma fmul_commute: "fmul a b = fmul b a"
  by (simp add: fmul_def mult.commute)

lemma magnitude_unit: "fsqrt (fadd (fmul 1 1) (fmul 0 0)) = 1"
  by (simp add: fsqrt_def fadd_def fmul_def fl_zero fl_one)

lemma magnitude_zero: "fsqrt (fadd (fmul 0 0) (fmul 0 0)) = 0"
  by (simp add: fsqrt_def fadd_def fmul_def fl_zero)

lemma ramp_step:
  "snd (calculate_motion 1 0 20 a s) =
     (if s < 20 then min 20 (fadd s a) else max 20 (fsub s (fmul a 2)))"
  unfolding snd_calculate_motion magnitude_unit by (simp add: fmul_def fl_20)

lemma calculate_motion_rest: "calculate_motion 0 0 M a s = ((0, 0), 0)"
  by (simp add: calculate_motion_def magnitude_zero)

lemma apply_deadzone_0: "apply_deadzone 0 0 = Inr 0"
  by (simp add: apply_deadzone_def)

lemma apply_deadzone_1: "apply_deadzone 1 0 = Inr 1"
  by (simp add: apply_deadzone_def fsub_def fdiv_def fl_one copysign_def)

text \<open>The controller states the full-tilt run passes through.\<close>

lemma full_tilt_iteration:
  assumes "config c = default_config" "button_states c = (\<lambda>_. False)"
    "scroll_thread_active c = (\<lambda>_. False)"
  shows "input_iteration full_tilt c =
           (None,
            c\<lparr>left_motion := fst (calculate_motion 1 0 20 (fl (4/10)) (left_speed c)),
              left_speed := snd (calculate_motion 1 0 20 (fl (4/10)) (left_speed c)),
              right_motion := (0, 0), right_speed := 0\<rparr>,
            [Sleep (fl (5/1000))])"
proof -
  have l: "read_left full_tilt c =
      (None, c\<lparr>left_motion := fst (calculate_motion 1 0 20 (fl (4/10)) (left_speed c)),
                left_speed := snd (calculate_motion 1 0 20 (fl (4/10)) (left_speed c))\<rparr>, [])"
    using assms(1)
    by (simp add: read_left_def read_stick_def full_tilt_def default_config_def
        apply_deadzone_0 apply_deadzone_1 split_beta)
  have r: "read_right full_tilt c' = (None, c'\<lparr>right_motion := (0, 0), right_speed := 0\<rparr>, [])"
    if "config c' = default_config" for c'
    using that
    by (simp add: read_right_def read_stick_def full_tilt_def default_config_def
        apply_deadzone_0 calculate_motion_rest)
  have b: "handle_buttons full_tilt c' = (None, c', [])"
    if "button_states c' = (\<lambda>_. False)" for c'
    using that by (simp add: handle_buttons_def click_step_def andthen_def full_tilt_def)
  have s: "handle_scroll full_tilt c' = (None, c', [])"
    if "scroll_thread_active c' = (\<lambda>_. False)" for c'
    using that by (simp add: handle_scroll_def scroll_step_def andthen_def full_tilt_def)
  have p: "pump full_tilt = None" by (simp add: full_tilt_def)
  have rr: "refresh_rate default_config = fl (5/1000)"
    by (simp add: default_config_def)
  show ?thesis
    using assms
    by (simp add: input_iteration_def read_analog_inputs_def andthen_def l r b s p rr
        sleep_refresh_def)
qed


lemma full_tilt_run:
  assumes "config c = default_config" "running c" "button_states c = (\<lambda>_. False)"
    "scroll_thread_active c = (\<lambda>_. False)"
  shows "left_speed (fst (input_listener (replicate n full_tilt) c)) =
           ((\<lambda>s. snd (calculate_motion 1 0 20 (fl (4/10)) s)) ^^ n) (left_speed c)"
  using assms
proof (induction n arbitrary: c)
  case 0
  then show ?case by (simp add: input_listener_def)
next
  case (Suc n)
  define c1 where "c1 = c\<lparr>left_motion := fst (calculate_motion 1 0 20 (fl (4/10)) (left_speed c)),
              left_speed := snd (calculate_motion 1 0 20 (fl (4/10)) (left_speed c)),
              right_motion := (0, 0), right_speed := 0\<rparr>"
  have it: "input_iteration full_tilt c = (None, c1, [Sleep (fl (5/1000))])"
    unfolding c1_def using Suc.prems(1,3,4) by (rule full_tilt_iteration)
  have "left_speed (fst (input_listener (replicate n full_tilt) c1)) =
          ((\<lambda>s. snd (calculate_motion 1 0 20 (fl (4/10)) s)) ^^ n) (left_speed c1)"
    by (rule Suc.IH) (use Suc.prems in \<open>simp_all add: c1_def\<close>)
  moreover have "left_speed c1 = snd (calculate_motion 1 0 20 (fl (4/10)) (left_speed c))"
    by (simp add: c1_def)
  moreover have "fst (input_listener (replicate (Suc n) full_tilt) c)
                   = fst (input_listener (replicate n full_tilt) c1)"
    using Suc.prems(2) it by (simp add: input_listener_def split_beta)
  ultimately have "left_speed (fst (input_listener (replicate (Suc n) full_tilt) c)) =
      ((\<lambda>s. snd (calculate_motion 1 0 20 (fl (4/10)) s)) ^^ n)
        ((\<lambda>s. snd (calculate_motion 1 0 20 (fl (4/10)) s)) (left_speed c))"
    by simp
  then show ?case by (simp only: funpow_Suc_right o_apply)
qed

lemma left_speed_after_funpow:
  "left_speed_after n = ((\<lambda>s. snd (calculate_motion 1 0 20 (fl (4/10)) s)) ^^ n) 0"
proof -
  have "left_speed (fst (input_listener (replicate n full_tilt) (fst (start (init default_config)))))
        = ((\<lambda>s. snd (calculate_motion 1 0 20 (fl (4/10)) s)) ^^ n)
            (left_speed (fst (start (init default_config))))"
    by (rule full_tilt_run) (simp_all add: start_def init_def)
  then show ?thesis by (simp add: left_speed_after_def start_def init_def)
qed


text \<open>Ten rounded additions of the binary64 number nearest to 0.4.\<close>

lemma ramp_ten:
  "((\<lambda>s. snd (calculate_motion 1 0 20 (fl (4/10)) s)) ^^ 10) 0
     = 9007199254740991 / 2251799813685248"
proof -
  define step where "step = (\<lambda>s. snd (calculate_motion 1 0 20 (fl (4/10)) s))"
  have s1: "step 0 = 3602879701896397 / 9007199254740992"
    unfolding step_def by (simp add: ramp_step fadd_def fl_04)
      (subst fl_eval [where k = 54], simp_all add: round_half_even_def)
  have s2: "step (3602879701896397 / 9007199254740992) = 3602879701896397 / 4503599627370496"
    unfolding step_def by (simp add: ramp_step fadd_def fl_04)
      (subst fl_eval [where k = 53], simp_all add: round_half_even_def)
  have s3: "step (3602879701896397 / 4503599627370496) = 1351079888211149 / 1125899906842624"
    unfolding step_def by (simp add: ramp_step fadd_def fl_04)
      (subst fl_eval [where k = 52], simp_all add: round_half_even_def)
  have s4: "step (1351079888211149 / 1125899906842624) = 3602879701896397 / 2251799813685248"
    unfolding step_def by (simp add: ramp_step fadd_def fl_04)
      (subst fl_eval [where k = 52], simp_all add: round_half_even_def)
  have s5: "step (3602879701896397 / 2251799813685248) = 2"
    unfolding step_def by (simp add: ramp_step fadd_def fl_04)
      (subst fl_eval [where k = 51], simp_all add: round_half_even_def)
  have s6: "step (2) = 5404319552844595 / 2251799813685248"
    unfolding step_def by (simp add: ramp_step fadd_def fl_04)
      (subst fl_eval [where k = 51], simp_all add: round_half_even_def)
  have s7: "step (5404319552844595 / 2251799813685248) = 3152519739159347 / 1125899906842624"
    unfolding step_def by (simp add: ramp_step fadd_def fl_04)
      (subst fl_eval [where k = 51], simp_all add: round_half_even_def)
  have s8: "step (3152519739159347 / 1125899906842624) = 7205759403792793 / 2251799813685248"
    unfolding step_def by (simp add: ramp_step fadd_def fl_04)
      (subst fl_eval [where k = 51], simp_all add: round_half_even_def)
  have s9: "step (7205759403792793 / 2251799813685248) = 2026619832316723 / 562949953421312"
    unfolding step_def by (simp add: ramp_step fadd_def fl_04)
      (subst fl_eval [where k = 51], simp_all add: round_half_even_def)
  have s10: "step (2026619832316723 / 562949953421312) = 9007199254740991 / 2251799813685248"
    unfolding step_def by (simp add: ramp_step fadd_def fl_04)
      (subst fl_eval [where k = 51], simp_all add: round_half_even_def)
  have "(step ^^ 10) 0 = 9007199254740991 / 2251799813685248"
    by (simp add: eval_nat_numeral s1 s2 s3 s4 s5 s6 s7 s8 s9 s10)
  then show ?thesis unfolding step_def .
qed


lemma ramp_step_grows:
  assumes "is_float s" "0 \<le> s" "s \<le> 20" "0 < a"
  defines "s' \<equiv> snd (calculate_motion 1 0 20 a s)"
  shows "s \<le> s' \<and> s' \<le> 20 \<and> is_float s'"
proof (cases "s < 20")
  case True
  have "fl s \<le> fl (s + a)" using assms(4) by (intro fl_mono) simp
  then have up: "s \<le> fadd s a" using assms(1) by (simp add: fadd_def is_float_def)
  have f: "is_float (fadd s a)" "is_float 20"
    by (simp_all add: fadd_def is_float_fl) (simp add: is_float_def fl_20)
  have "s' = min 20 (fadd s a)" using True by (simp add: s'_def ramp_step)
  then show ?thesis using up True f by (auto simp: min_def)
next
  case False
  then have s: "s = 20" using assms(3) by simp
  have "0 \<le> fmul a 2" unfolding fmul_def using assms(4) by (intro fl_nonneg) simp
  then have "fl (20 - fmul a 2) \<le> fl 20" by (intro fl_mono) simp
  then have "fsub 20 (fmul a 2) \<le> 20" by (simp add: fsub_def fl_20)
  then have "s' = 20" by (simp add: s'_def ramp_step s)
  then show ?thesis using s by (simp add: is_float_def fl_20)
qed

lemma ramp_invariant:
  "is_float (((\<lambda>s. snd (calculate_motion 1 0 20 (fl (4/10)) s)) ^^ n) 0)
   \<and> 0 \<le> ((\<lambda>s. snd (calculate_motion 1 0 20 (fl (4/10)) s)) ^^ n) 0
   \<and> ((\<lambda>s. snd (calculate_motion 1 0 20 (fl (4/10)) s)) ^^ n) 0 \<le> 20"
proof (induction n)
  case 0
  then show ?case by (simp add: is_float_0)
next
  case (Suc n)
  have a: "0 < fl (4/10)" by (simp add: fl_04)
  from Suc ramp_step_grows [OF _ _ _ a, of "((\<lambda>s. snd (calculate_motion 1 0 20 (fl (4/10)) s)) ^^ n) 0"]
  show ?case by simp
qed

lemma left_speed_after_mono: "left_speed_after n \<le> left_speed_after (Suc n)"
proof -
  have a: "0 < fl (4/10)" by (simp add: fl_04)
  from ramp_invariant [of n]
    ramp_step_grows [OF _ _ _ a, of "((\<lambda>s. snd (calculate_motion 1 0 20 (fl (4/10)) s)) ^^ n) 0"]
  show ?thesis by (simp add: left_speed_after_funpow)
qed

lemma left_speed_after_10: "left_speed_after 10 = 4 - 1 / 2 ^ 51"
  unfolding left_speed_after_funpow ramp_ten by simp

lemma calculate_motion_formula:
  "calculate_motion x y M a s =
     (let m = fsqrt (fadd (fmul x x) (fmul y y))
      in if m = 0 then ((0, 0), 0)
         else let target = min (fmul m M) M;
                  new_s = (if target > s then min target (fadd s a)
                           else max target (fsub s (fmul 2 a)))
              in ((fmul (fdiv x m) new_s, fmul (fdiv y m) new_s), new_s))"
proof -
  have "fsqrt (fadd (fmul x x) (fmul y y)) > 0 \<longleftrightarrow> fsqrt (fadd (fmul x x) (fmul y y)) \<noteq> 0"
    using magnitude_nonneg [of x y] by linarith
  then show ?thesis
    by (simp add: calculate_motion_def Let_def py_min_eq py_max_eq fmul_commute [of a 2])
qed


text \<open>
  C1 as the specification states it fails: ten ticks at full tilt do not give exactly 4.0.
\<close>

theorem ten_ticks_not_exactly_4: "left_speed_after 10 \<noteq> 4"
  unfolding left_speed_after_funpow ramp_ten by simp

text \<open>
  C1, amended. \<open>_calculate_motion\<close> returns velocity \<open>(0, 0)\<close> and speed \<open>0\<close> when the
  magnitude \<open>m\<close> of the shaped input is \<open>0\<close>; otherwise, with \<open>target = min(m*M, M)\<close>, the
  new speed is \<open>min(target, s + a)\<close> when \<open>target > s\<close> and \<open>max(target, s - 2a)\<close> otherwise,
  and the velocity is the unit input vector scaled by the new speed (all operations the
  binary64 ones). With max speed 20, acceleration 0.4, starting speed 0 and the stick held
  at full magnitude, the speed after 10 ticks of the sampling loop is \<open>4 - 1 / 2 ^ 51\<close>
  (3.9999999999999996: ten rounded additions of the binary64 number nearest to 0.4), and
  the speed never decreases from one tick to the next.
\<close>

theorem calculate_motion_spec:
  "calculate_motion x y M a s =
     (let m = fsqrt (fadd (fmul x x) (fmul y y))
      in if m = 0 then ((0, 0), 0)
         else let target = min (fmul m M) M;
                  new_s = (if target > s then min target (fadd s a)
                           else max target (fsub s (fmul 2 a)))
              in ((fmul (fdiv x m) new_s, fmul (fdiv y m) new_s), new_s))
   \<and> left_speed_after 10 = 4 - 1 / 2 ^ 51
   \<and> (\<forall>n. left_speed_after n \<le> left_speed_after (Suc n))"
  using calculate_motion_formula [of x y M a s] left_speed_after_10 left_speed_after_mono
  by blast


section \<open>The scroll repeater\<close>

lemma fl_012: "fl (3/25) = 1080863910568919 / 9007199254740992"
  by (subst fl_eval [where k = 56]) (simp_all add: round_half_even_def)

lemma fl_002: "fl (1/50) = 5764607523034235 / 288230376151711744"
  by (subst fl_eval [where k = 58]) (simp_all add: round_half_even_def)

lemma fl_09: "fl (9/10) = 8106479329266893 / 9007199254740992"
  by (subst fl_eval [where k = 53]) (simp_all add: round_half_even_def)

text \<open>Eighteen rounded multiplications by the binary64 number nearest to 0.9.\<close>

lemma scroll_delay_18: "scroll_delay 18 = fl (2/100)"
proof -
  define nxt where "nxt = (\<lambda>d. py_max (fl (2/100)) (fmul d (fl (9/10))))"
  have m0: "fmul (1080863910568919 / 9007199254740992) (fl (9/10)) = 7782220156096217 / 72057594037927936"
    by (simp add: fmul_def fl_09) (subst fl_eval [where k = 56], simp_all add: round_half_even_def)
  have t0: "nxt (1080863910568919 / 9007199254740992) = 7782220156096217 / 72057594037927936"
    by (simp add: nxt_def py_max_def fl_002 m0)
  have m1: "fmul (7782220156096217 / 72057594037927936) (fl (9/10)) = 7003998140486595 / 72057594037927936"
    by (simp add: fmul_def fl_09) (subst fl_eval [where k = 56], simp_all add: round_half_even_def)
  have t1: "nxt (7782220156096217 / 72057594037927936) = 7003998140486595 / 72057594037927936"
    by (simp add: nxt_def py_max_def fl_002 m1)
  have m2: "fmul (7003998140486595 / 72057594037927936) (fl (9/10)) = 393974895402371 / 4503599627370496"
    by (simp add: fmul_def fl_09) (subst fl_eval [where k = 56], simp_all add: round_half_even_def)
  have t2: "nxt (7003998140486595 / 72057594037927936) = 393974895402371 / 4503599627370496"
    by (simp add: nxt_def py_max_def fl_002 m2)
  have m3: "fmul (393974895402371 / 4503599627370496) (fl (9/10)) = 5673238493794143 / 72057594037927936"
    by (simp add: fmul_def fl_09) (subst fl_eval [where k = 56], simp_all add: round_half_even_def)
  have t3: "nxt (393974895402371 / 4503599627370496) = 5673238493794143 / 72057594037927936"
    by (simp add: nxt_def py_max_def fl_002 m3)
  have m4: "fmul (5673238493794143 / 72057594037927936) (fl (9/10)) = 5105914644414729 / 72057594037927936"
    by (simp add: fmul_def fl_09) (subst fl_eval [where k = 56], simp_all add: round_half_even_def)
  have t4: "nxt (5673238493794143 / 72057594037927936) = 5105914644414729 / 72057594037927936"
    by (simp add: nxt_def py_max_def fl_002 m4)
  have m5: "fmul (5105914644414729 / 72057594037927936) (fl (9/10)) = 574415397496657 / 9007199254740992"
    by (simp add: fmul_def fl_09) (subst fl_eval [where k = 56], simp_all add: round_half_even_def)
  have t5: "nxt (5105914644414729 / 72057594037927936) = 574415397496657 / 9007199254740992"
    by (simp add: nxt_def py_max_def fl_002 m5)
  have m6: "fmul (574415397496657 / 9007199254740992) (fl (9/10)) = 8271581723951861 / 144115188075855872"
    by (simp add: fmul_def fl_09) (subst fl_eval [where k = 57], simp_all add: round_half_even_def)
  have t6: "nxt (574415397496657 / 9007199254740992) = 8271581723951861 / 144115188075855872"
    by (simp add: nxt_def py_max_def fl_002 m6)
  have m7: "fmul (8271581723951861 / 144115188075855872) (fl (9/10)) = 7444423551556675 / 144115188075855872"
    by (simp add: fmul_def fl_09) (subst fl_eval [where k = 57], simp_all add: round_half_even_def)
  have t7: "nxt (8271581723951861 / 144115188075855872) = 7444423551556675 / 144115188075855872"
    by (simp add: nxt_def py_max_def fl_002 m7)
  have m8: "fmul (7444423551556675 / 144115188075855872) (fl (9/10)) = 418748824775063 / 9007199254740992"
    by (simp add: fmul_def fl_09) (subst fl_eval [where k = 57], simp_all add: round_half_even_def)
  have t8: "nxt (7444423551556675 / 144115188075855872) = 418748824775063 / 9007199254740992"
    by (simp add: nxt_def py_max_def fl_002 m8)
  have m9: "fmul (418748824775063 / 9007199254740992) (fl (9/10)) = 6029983076760907 / 144115188075855872"
    by (simp add: fmul_def fl_09) (subst fl_eval [where k = 57], simp_all add: round_half_even_def)
  have t9: "nxt (418748824775063 / 9007199254740992) = 6029983076760907 / 144115188075855872"
    by (simp add: nxt_def py_max_def fl_002 m9)
  have m10: "fmul (6029983076760907 / 144115188075855872) (fl (9/10)) = 339186548067801 / 9007199254740992"
    by (simp add: fmul_def fl_09) (subst fl_eval [where k = 57], simp_all add: round_half_even_def)
  have t10: "nxt (6029983076760907 / 144115188075855872) = 339186548067801 / 9007199254740992"
    by (simp add: nxt_def py_max_def fl_002 m10)
  have m11: "fmul (339186548067801 / 9007199254740992) (fl (9/10)) = 4884286292176335 / 144115188075855872"
    by (simp add: fmul_def fl_09) (subst fl_eval [where k = 57], simp_all add: round_half_even_def)
  have t11: "nxt (339186548067801 / 9007199254740992) = 4884286292176335 / 144115188075855872"
    by (simp add: nxt_def py_max_def fl_002 m11)
  have m12: "fmul (4884286292176335 / 144115188075855872) (fl (9/10)) = 8791715325917403 / 288230376151711744"
    by (simp add: fmul_def fl_09) (subst fl_eval [where k = 58], simp_all add: round_half_even_def)
  have t12: "nxt (4884286292176335 / 144115188075855872) = 8791715325917403 / 288230376151711744"
    by (simp add: nxt_def py_max_def fl_002 m12)
  have m13: "fmul (8791715325917403 / 288230376151711744) (fl (9/10)) = 7912543793325663 / 288230376151711744"
    by (simp add: fmul_def fl_09) (subst fl_eval [where k = 58], simp_all add: round_half_even_def)
  have t13: "nxt (8791715325917403 / 288230376151711744) = 7912543793325663 / 288230376151711744"
    by (simp add: nxt_def py_max_def fl_002 m13)
  have m14: "fmul (7912543793325663 / 288230376151711744) (fl (9/10)) = 7121289413993097 / 288230376151711744"
    by (simp add: fmul_def fl_09) (subst fl_eval [where k = 58], simp_all add: round_half_even_def)
  have t14: "nxt (7912543793325663 / 288230376151711744) = 7121289413993097 / 288230376151711744"
    by (simp add: nxt_def py_max_def fl_002 m14)
  have m15: "fmul (7121289413993097 / 288230376151711744) (fl (9/10)) = 6409160472593787 / 288230376151711744"
    by (simp add: fmul_def fl_09) (subst fl_eval [where k = 58], simp_all add: round_half_even_def)
  have t15: "nxt (7121289413993097 / 288230376151711744) = 6409160472593787 / 288230376151711744"
    by (simp add: nxt_def py_max_def fl_002 m15)
  have m16: "fmul (6409160472593787 / 288230376151711744) (fl (9/10)) = 721030553166801 / 36028797018963968"
    by (simp add: fmul_def fl_09) (subst fl_eval [where k = 58], simp_all add: round_half_even_def)
  have t16: "nxt (6409160472593787 / 288230376151711744) = 721030553166801 / 36028797018963968"
    by (simp add: nxt_def py_max_def fl_002 m16)
  have m17: "fmul (721030553166801 / 36028797018963968) (fl (9/10)) = 5191419982800967 / 288230376151711744"
    by (simp add: fmul_def fl_09) (subst fl_eval [where k = 58], simp_all add: round_half_even_def)
  have t17: "nxt (721030553166801 / 36028797018963968) = 5764607523034235 / 288230376151711744"
    by (simp add: nxt_def py_max_def fl_002 m17)
  have m18: "fmul (5764607523034235 / 288230376151711744) (fl (9/10)) = 1297036692682703 / 72057594037927936"
    by (simp add: fmul_def fl_09) (subst fl_eval [where k = 58], simp_all add: round_half_even_def)
  have t18: "nxt (5764607523034235 / 288230376151711744) = 5764607523034235 / 288230376151711744"
    by (simp add: nxt_def py_max_def fl_002 m18)
  have r: "scroll_delay k = (nxt ^^ k) (1080863910568919 / 9007199254740992)" for k
    by (induction k) (simp_all add: nxt_def fl_012)
  have "(nxt ^^ 18) (1080863910568919 / 9007199254740992)
          = 5764607523034235 / 288230376151711744"
    by (simp add: eval_nat_numeral funpow_swap1
          t0 t1 t2 t3 t4 t5 t6 t7 t8 t9 t10 t11 t12 t13 t14 t15 t16 t17)
  then have "scroll_delay 18 = 5764607523034235 / 288230376151711744"
    by (simp only: r)
  then show ?thesis by (simp add: fl_002)
qed

lemma scroll_floor_fixed: "py_max (fl (2/100)) (fmul (fl (2/100)) (fl (9/10))) = fl (2/100)"
proof -
  have "fl (2/100) * fl (9/10) \<le> fl (2/100)" by (simp add: fl_002 fl_09)
  then have "fl (fl (2/100) * fl (9/10)) \<le> fl (fl (2/100))" by (rule fl_mono)
  then show ?thesis by (simp add: py_max_def fmul_def fl_idem)
qed

lemma scroll_delay_floor: "18 \<le> k \<Longrightarrow> scroll_delay k = fl (2/100)"
proof (induction k)
  case 0
  then show ?case by simp
next
  case (Suc k)
  show ?case
  proof (cases "k = 17")
    case True
    then have "Suc k = 18" by simp
    then show ?thesis by (simp only: scroll_delay_18)
  next
    case False
    then have "18 \<le> k" using Suc.prems by simp
    then have "scroll_delay k = fl (2/100)" by (rule Suc.IH)
    then show ?thesis using scroll_floor_fixed by simp
  qed
qed

lemma scroll_delay_ge: "fl (2/100) \<le> scroll_delay k"
proof (cases k)
  case 0
  then show ?thesis by (simp add: fl_012 fl_002)
next
  case (Suc j)
  then show ?thesis by (simp add: py_max_def)
qed


lemma scroll_thread_loop_Cons:
  "scroll_thread_loop d delay ((active, w) # rest) =
     (if active \<and> perform w (Mouse_scroll (if d = Up then 120 else - 120)) = None
      then Mouse_scroll (if d = Up then 120 else - 120) # Sleep delay
             # scroll_thread_loop d (py_max (fl (2/100)) (fmul delay (fl (9/10)))) rest
      else [])"
  by (cases d) (simp_all add: Let_def split: option.splits)

lemma scroll_thread_loop_trace:
  "scroll_thread_loop d (scroll_delay j) obs =
     concat (map (\<lambda>k. [Mouse_scroll (if d = Up then 120 else - 120), Sleep (scroll_delay (j + k))])
       [0..<length (takeWhile
           (\<lambda>(active, w). active \<and> perform w (Mouse_scroll (if d = Up then 120 else - 120)) = None)
           obs)])"
proof (induction obs arbitrary: j)
  case Nil
  then show ?case by simp
next
  case (Cons ob obs)
  obtain active w where ob: "ob = (active, w)" by (cases ob)
  show ?case
  proof (cases "active \<and> perform w (Mouse_scroll (if d = Up then 120 else - 120)) = None")
    case False
    then show ?thesis by (simp add: ob scroll_thread_loop_Cons del: scroll_thread_loop.simps)
  next
    case True
    have shift: "map f [0..<Suc m] = f 0 # map (\<lambda>k. f (Suc k)) [0..<m]" for f :: "nat \<Rightarrow> effect list" and m
      by (simp only: upt_conv_Cons [of 0 "Suc m"] map_Suc_upt [symmetric] list.map map_map o_def)
    from True Cons.IH [of "Suc j"] show ?thesis
      by (simp add: ob scroll_thread_loop_Cons shift del: upt_Suc scroll_thread_loop.simps)
  qed
qed

text \<open>
  C7. A scroll repeater emits, as long as it observes its flag set, a scroll event followed
  by a pause; the pause of iteration \<open>k\<close> is \<open>scroll_delay k\<close>, which starts at 0.12 and
  is \<open>max(0.02, previous * 0.9)\<close> afterwards. Every delay is at least 0.02, and from
  iteration 18 on the delay is the floor 0.02 and stays there. The tick count of every
  emitted scroll event is positive for the up direction and negative for the down
  direction.
\<close>

theorem scroll_thread_spec:
  "scroll_thread d obs =
     concat (map (\<lambda>k. [Mouse_scroll (if d = Up then 120 else - 120), Sleep (scroll_delay k)])
       [0..<length (takeWhile
           (\<lambda>(active, w). active \<and> perform w (Mouse_scroll (if d = Up then 120 else - 120)) = None)
           obs)])
   \<and> scroll_delay 0 = fl (12/100)
   \<and> (\<forall>k. scroll_delay (Suc k) = max (fl (2/100)) (fmul (scroll_delay k) (fl (9/10))))
   \<and> (\<forall>k. 2/100 \<le> scroll_delay k)
   \<and> (\<forall>k\<ge>18. scroll_delay k = fl (2/100))
   \<and> (\<forall>a. Mouse_scroll a \<in> set (scroll_thread d obs) \<longrightarrow> (if d = Up then 0 < a else a < 0))"
proof -
  have tr: "scroll_thread d obs =
     concat (map (\<lambda>k. [Mouse_scroll (if d = Up then 120 else - 120), Sleep (scroll_delay k)])
       [0..<length (takeWhile
           (\<lambda>(active, w). active \<and> perform w (Mouse_scroll (if d = Up then 120 else - 120)) = None)
           obs)])"
    using scroll_thread_loop_trace [of d 0 obs] by (simp add: scroll_thread_def)
  have ge: "2/100 \<le> scroll_delay k" for k
  proof -
    have "(2/100 :: real) \<le> fl (2/100)" by (simp add: fl_002)
    then show ?thesis using scroll_delay_ge [of k] by linarith
  qed
  have sign: "if d = Up then 0 < a else a < 0" if "Mouse_scroll a \<in> set (scroll_thread d obs)" for a
    using that unfolding tr by (cases d) (auto split: if_splits)
  show ?thesis
    using tr ge scroll_delay_floor sign by (simp add: py_max_eq)
qed

text \<open>The theorem for the up direction, held for three observations, and at iteration 20.\<close>

theorem scroll_thread_spec_witness:
  "(18::nat) \<le> 20 \<and> scroll_delay 20 = fl (2/100)
   \<and> Mouse_scroll 120 \<in> set (scroll_thread Up [(True, full_tilt), (True, full_tilt), (False, full_tilt)])
   \<and> (0::int) < 120"
proof -
  have m: "Mouse_scroll 120 \<in> set (scroll_thread Up [(True, full_tilt), (True, full_tilt), (False, full_tilt)])"
    by (simp add: scroll_thread_def full_tilt_def)
  have k: "(18::nat) \<le> 20" by simp
  note t = scroll_thread_spec [of Up "[(True, full_tilt), (True, full_tilt), (False, full_tilt)]"]
  have "\<forall>k\<ge>18. scroll_delay k = fl (2/100)"
    using t by (elim conjE)
  then have f: "scroll_delay 20 = fl (2/100)" using k by blast
  have "\<forall>a. Mouse_scroll a \<in> set (scroll_thread Up [(True, full_tilt), (True, full_tilt), (False, full_tilt)])
          \<longrightarrow> (if Up = Up then 0 < a else a < 0)"
    using t by (elim conjE)
  then have "(0::int) < 120" using m by (simp only: if_True)
  then show ?thesis using m f k by blast
qed


section \<open>The click edge detector\<close>

lemma andthen_ok:
  "f c = (None, c1, o1) \<Longrightarrow> g c1 = (r, c2, o2) \<Longrightarrow> andthen f g c = (r, c2, o1 @ o2)"
  by (simp add: andthen_def)










lemma run_loop_not_running: "\<not> running c \<Longrightarrow> run_loop msg body ws c = (c, [])"
  by (cases ws) simp_all









section \<open>The emission loop\<close>

lemma first_tick_motion:
  "calculate_motion 1 0 20 (fl (4/10)) 0
     = ((3602879701896397 / 9007199254740992, 0), 3602879701896397 / 9007199254740992)"
proof -
  have m: "fsqrt (fadd (fmul 1 1) (fmul 0 0)) = 1" by (rule magnitude_unit)
  have v: "fl (3602879701896397 / 9007199254740992) = 3602879701896397 / 9007199254740992"
    using fl_idem [of "2/5"] unfolding fl_04 .
  have a: "fadd 0 (fl (4/10)) = 3602879701896397 / 9007199254740992"
    by (simp add: fadd_def fl_04 v)
  show ?thesis
    unfolding calculate_motion_def m Let_def a
    by (simp add: py_min_def fmul_def fdiv_def fl_one fl_zero fl_20 v)
qed

lemma py_int_small: "py_int (3602879701896397 / 9007199254740992) = 0" "py_int 0 = 0"
  by (simp_all add: py_int_def)

lemma first_tick_state:
  "fst (input_listener [full_tilt] (fst (start (init default_config))))
     = (fst (start (init default_config)))
         \<lparr>left_motion := (3602879701896397 / 9007199254740992, 0),
          left_speed := 3602879701896397 / 9007199254740992,
          right_motion := (0, 0), right_speed := 0\<rparr>"
proof -
  define c0 where "c0 = fst (start (init default_config))"
  have c0: "config c0 = default_config" "button_states c0 = (\<lambda>_. False)"
    "scroll_thread_active c0 = (\<lambda>_. False)" "running c0" "left_speed c0 = 0"
    by (simp_all add: c0_def start_def init_def)
  have "input_iteration full_tilt c0 =
      (None, c0\<lparr>left_motion := (3602879701896397 / 9007199254740992, 0),
          left_speed := 3602879701896397 / 9007199254740992,
          right_motion := (0, 0), right_speed := 0\<rparr>, [Sleep (fl (5/1000))])"
    unfolding full_tilt_iteration [OF c0(1-3)] c0(5) first_tick_motion by simp
  then show ?thesis using c0(4) by (simp add: input_listener_def c0_def)
qed


lemma mover_iteration_ok:
  assumes "perform w (Mouse_move (py_int (fadd (fst (left_motion c)) (fst (right_motion c))))
                                 (py_int (fadd (snd (left_motion c)) (snd (right_motion c))))) = None"
  shows "mover_iteration w c =
           (None, c,
            (if fadd (fst (left_motion c)) (fst (right_motion c)) \<noteq> 0
                \<or> fadd (snd (left_motion c)) (snd (right_motion c)) \<noteq> 0
             then [Mouse_move (py_int (fadd (fst (left_motion c)) (fst (right_motion c))))
                              (py_int (fadd (snd (left_motion c)) (snd (right_motion c))))]
             else [])
            @ [Sleep (refresh_rate (config c))])"
  using assms by (simp add: mover_iteration_def Let_def andthen_def act_def sleep_refresh_def)

lemma first_tick_move:
  "mover_iteration full_tilt (fst (input_listener [full_tilt] (fst (start (init default_config)))))
     = (None, fst (input_listener [full_tilt] (fst (start (init default_config)))),
        [Mouse_move 0 0, Sleep (fl (5/1000))])"
proof -
  have v: "fl (3602879701896397 / 9007199254740992) = 3602879701896397 / 9007199254740992"
    using fl_idem [of "2/5"] unfolding fl_04 .
  have p: "perform full_tilt ev = None" for ev by (simp add: full_tilt_def)
  show ?thesis
    unfolding first_tick_state
    by (subst mover_iteration_ok)
       (simp_all add: p fadd_def v fl_zero py_int_small start_def init_def default_config_def)
qed

text \<open>
  C3 as the specification states it fails: after one sampling tick with the left stick at
  full tilt the summed velocity is \<open>(0.4, 0)\<close>, which truncates to \<open>(0, 0)\<close>, and the emission
  loop still emits a pointer-move command, with displacement \<open>(0, 0)\<close>.
\<close>

theorem move_emitted_with_zero_displacement:
  "py_int (fadd (fst (left_motion (fst (input_listener [full_tilt] (fst (start (init default_config)))))))
                (fst (right_motion (fst (input_listener [full_tilt] (fst (start (init default_config)))))))) = 0
   \<and> py_int (fadd (snd (left_motion (fst (input_listener [full_tilt] (fst (start (init default_config)))))))
                   (snd (right_motion (fst (input_listener [full_tilt] (fst (start (init default_config)))))))) = 0
   \<and> Mouse_move 0 0 \<in> set (snd (snd (mover_iteration full_tilt (fst (input_listener [full_tilt] (fst (start (init default_config))))))))"
proof -
  have v: "fl (3602879701896397 / 9007199254740992) = 3602879701896397 / 9007199254740992"
    using fl_idem [of "2/5"] unfolding fl_04 .
  have "Mouse_move 0 0 \<in> set (snd (snd (mover_iteration full_tilt (fst (input_listener [full_tilt] (fst (start (init default_config))))))))"
    by (simp add: first_tick_move)
  then show ?thesis
    by (simp add: first_tick_state fadd_def v fl_zero py_int_small)
qed

text \<open>
  C3, amended. On every tick of the emission loop whose injection does not raise, a
  relative pointer-move command is emitted if and only if the sum of the left-stick and
  right-stick velocity vectors is non-zero before truncation; when emitted, its
  displacement is that sum truncated toward zero to whole units (which may be \<open>(0, 0)\<close>).
  In particular a command is emitted whenever the truncated sum is non-zero. The tick
  then sleeps for the refresh interval and leaves the controller unchanged.
\<close>

theorem mover_iteration_spec:
  assumes "perform w (Mouse_move (py_int (fadd (fst (left_motion c)) (fst (right_motion c))))
                                 (py_int (fadd (snd (left_motion c)) (snd (right_motion c))))) = None"
  shows "mover_iteration w c =
           (None, c,
            (if fadd (fst (left_motion c)) (fst (right_motion c)) \<noteq> 0
                \<or> fadd (snd (left_motion c)) (snd (right_motion c)) \<noteq> 0
             then [Mouse_move (py_int (fadd (fst (left_motion c)) (fst (right_motion c))))
                              (py_int (fadd (snd (left_motion c)) (snd (right_motion c))))]
             else [])
            @ [Sleep (refresh_rate (config c))])
         \<and> ((py_int (fadd (fst (left_motion c)) (fst (right_motion c))) \<noteq> 0
              \<or> py_int (fadd (snd (left_motion c)) (snd (right_motion c))) \<noteq> 0)
            \<longrightarrow> Mouse_move (py_int (fadd (fst (left_motion c)) (fst (right_motion c))))
                             (py_int (fadd (snd (left_motion c)) (snd (right_motion c))))
                  \<in> set (snd (snd (mover_iteration w c))))"
proof -
  have z: "py_int x \<noteq> 0 \<Longrightarrow> x \<noteq> 0" for x by (auto simp: py_int_def)
  show ?thesis
    unfolding mover_iteration_ok [OF assms] using z by auto
qed

text \<open>
  The theorem on a controller whose left stick moves at full speed to the right, with a
  world that accepts every event: the command \<open>(20, 0)\<close> is emitted.
\<close>

theorem mover_iteration_spec_witness:
  "perform full_tilt (Mouse_move 20 0) = None
   \<and> py_int (fadd (fst (left_motion ((init default_config)\<lparr>left_motion := (20, 0)\<rparr>))) (fst (right_motion ((init default_config)\<lparr>left_motion := (20, 0)\<rparr>)))) \<noteq> 0
   \<and> mover_iteration full_tilt ((init default_config)\<lparr>left_motion := (20, 0)\<rparr>)
       = (None, ((init default_config)\<lparr>left_motion := (20, 0)\<rparr>), [Mouse_move 20 0, Sleep (refresh_rate default_config)])"
proof -
  have e: "fadd (fst (left_motion ((init default_config)\<lparr>left_motion := (20, 0)\<rparr>))) (fst (right_motion ((init default_config)\<lparr>left_motion := (20, 0)\<rparr>))) = 20"
    "fadd (snd (left_motion ((init default_config)\<lparr>left_motion := (20, 0)\<rparr>))) (snd (right_motion ((init default_config)\<lparr>left_motion := (20, 0)\<rparr>))) = 0"
    by (simp_all add: init_def fadd_def fl_zero fl_20)
  have i: "py_int 20 = 20" "py_int 0 = 0" by (simp_all add: py_int_def)
  have h: "perform full_tilt (Mouse_move (py_int (fadd (fst (left_motion ((init default_config)\<lparr>left_motion := (20, 0)\<rparr>))) (fst (right_motion ((init default_config)\<lparr>left_motion := (20, 0)\<rparr>)))))
                                 (py_int (fadd (snd (left_motion ((init default_config)\<lparr>left_motion := (20, 0)\<rparr>))) (snd (right_motion ((init default_config)\<lparr>left_motion := (20, 0)\<rparr>)))))) = None"
    by (simp add: full_tilt_def)
  have "mover_iteration full_tilt ((init default_config)\<lparr>left_motion := (20, 0)\<rparr>)
       = (None, ((init default_config)\<lparr>left_motion := (20, 0)\<rparr>), [Mouse_move 20 0, Sleep (refresh_rate default_config)])"
    using mover_iteration_spec [OF h] unfolding e i by (simp add: init_def)
  moreover have "perform full_tilt (Mouse_move 20 0) = None" by (simp add: full_tilt_def)
  moreover have "py_int (fadd (fst (left_motion ((init default_config)\<lparr>left_motion := (20, 0)\<rparr>))) (fst (right_motion ((init default_config)\<lparr>left_motion := (20, 0)\<rparr>)))) \<noteq> 0"
    unfolding e i by simp
  ultimately show ?thesis by blast
qed


section \<open>Fail-fast error handling\<close>

lemma run_loop_error:
  assumes "running c" "body w c = (Some e, c1, o1)"
  shows "run_loop msg body (w # ws) c =
           (fst (stop c1), o1 @ [Log_error msg e, Log_info ''Gamepad control stopped''])"
  using assms by (simp add: on_error_def stop_def)

lemma run_loop_stopped: "run_loop msg body ws (fst (stop c)) = (fst (stop c), [])"
  by (rule run_loop_not_running) (simp add: stop_eq)

text \<open>
  C8. When an iteration of the sampling loop or of the emission loop raises, the loop logs
  the exception, calls \<open>stop\<close> (the running flag and both scroll active flags are false
  afterwards) and ends there, whatever iterations would have followed; from the stopped
  state neither loop performs another iteration.
\<close>

theorem fail_fast:
  "(running c \<and> input_iteration w c = (Some e, c1, o1) \<longrightarrow>
      input_listener (w # ws) c =
        (fst (stop c1),
         o1 @ [Log_error ''Error in input listener'' e, Log_info ''Gamepad control stopped'']))
   \<and> (running c \<and> mover_iteration w c = (Some e, c1, o1) \<longrightarrow>
      mouse_mover (w # ws) c =
        (fst (stop c1),
         o1 @ [Log_error ''Error in mouse mover'' e, Log_info ''Gamepad control stopped'']))
   \<and> \<not> running (fst (stop c1))
   \<and> (\<forall>d. \<not> scroll_thread_active (fst (stop c1)) d)
   \<and> input_listener vs (fst (stop c1)) = (fst (stop c1), [])
   \<and> mouse_mover vs (fst (stop c1)) = (fst (stop c1), [])"
  using run_loop_error [of c input_iteration w e c1 o1 "''Error in input listener''" ws]
    run_loop_error [of c mover_iteration w e c1 o1 "''Error in mouse mover''" ws]
    run_loop_stopped [of "''Error in input listener''" input_iteration vs c1]
    run_loop_stopped [of "''Error in mouse mover''" mover_iteration vs c1]
  by (simp add: input_listener_def mouse_mover_def stop_eq)


text \<open>
  The theorem on a started controller whose device has gone away, and on a moving one whose
  injected events are refused; a further healthy iteration is offered to each loop and not
  taken.
\<close>

theorem fail_fast_witness:
  "running (fst (start (init default_config)))
   \<and> input_iteration unplugged (fst (start (init default_config))) = (Some DeviceError, (fst (start (init default_config))), [])
   \<and> input_listener [unplugged, full_tilt] (fst (start (init default_config))) =
       (fst (stop (fst (start (init default_config)))),
        [Log_error ''Error in input listener'' DeviceError, Log_info ''Gamepad control stopped''])
   \<and> running ((fst (start (init default_config)))\<lparr>left_motion := (20, 0)\<rparr>)
   \<and> mover_iteration refusing ((fst (start (init default_config)))\<lparr>left_motion := (20, 0)\<rparr>) = (Some InjectionError, ((fst (start (init default_config)))\<lparr>left_motion := (20, 0)\<rparr>), [])
   \<and> mouse_mover [refusing, full_tilt] ((fst (start (init default_config)))\<lparr>left_motion := (20, 0)\<rparr>) =
       (fst (stop ((fst (start (init default_config)))\<lparr>left_motion := (20, 0)\<rparr>)),
        [Log_error ''Error in mouse mover'' InjectionError, Log_info ''Gamepad control stopped''])"
proof -
  have r: "running (fst (start (init default_config)))" "running ((fst (start (init default_config)))\<lparr>left_motion := (20, 0)\<rparr>)"
    by (simp_all add: start_def init_def)
  have i: "input_iteration unplugged (fst (start (init default_config))) = (Some DeviceError, (fst (start (init default_config))), [])"
    by (simp add: input_iteration_def andthen_def read_analog_inputs_def read_left_def
        read_stick_def unplugged_def)
  have m: "mover_iteration refusing ((fst (start (init default_config)))\<lparr>left_motion := (20, 0)\<rparr>) = (Some InjectionError, ((fst (start (init default_config)))\<lparr>left_motion := (20, 0)\<rparr>), [])"
    by (simp add: mover_iteration_def andthen_def act_def refusing_def fadd_def fl_zero fl_20
        start_def init_def)
  have "input_listener [unplugged, full_tilt] (fst (start (init default_config))) =
       (fst (stop (fst (start (init default_config)))),
        [] @ [Log_error ''Error in input listener'' DeviceError, Log_info ''Gamepad control stopped''])"
    using fail_fast [where c = "(fst (start (init default_config)))" and w = unplugged and e = DeviceError
        and ?c1.0 = "(fst (start (init default_config)))" and ?o1.0 = "[]" and ws = "[full_tilt]"] r(1) i by blast
  moreover have "mouse_mover [refusing, full_tilt] ((fst (start (init default_config)))\<lparr>left_motion := (20, 0)\<rparr>) =
       (fst (stop ((fst (start (init default_config)))\<lparr>left_motion := (20, 0)\<rparr>)),
        [] @ [Log_error ''Error in mouse mover'' InjectionError, Log_info ''Gamepad control stopped''])"
    using fail_fast [where c = "((fst (start (init default_config)))\<lparr>left_motion := (20, 0)\<rparr>)" and w = refusing and e = InjectionError
        and ?c1.0 = "((fst (start (init default_config)))\<lparr>left_motion := (20, 0)\<rparr>)" and ?o1.0 = "[]" and ws = "[full_tilt]"] r(2) m by blast
  ultimately show ?thesis using r i m by simp
qed


section \<open>Starting a scroll repeater\<close>







end
